theory Spec2Isabelle
  imports Complex_Main "HOL-Library.Word"
begin

section \<open>Numeric types of the estimation code\<close>

text \<open>
  The C++ \<open>double\<close>, the IEEE 754 binary64 format. Finite values are carried as
  reals; the two infinities and the not-a-number value are kept apart from them, because
  the code compares and divides without guarding against them. An arithmetic operation
  on finite values gives the exact real result rounded to the nearest double
  (\<open>round_double\<close>); comparisons, negation and the absolute value are exact. The
  sign of zero is not modelled.
\<close>

datatype double = Num real | PosInf | NegInf | NaN

text \<open>
  Rounding to the nearest double, ties to the even significand. A double has a significand
  of 53 bits and an exponent from -1022 to 1023. For a positive real \<open>x\<close>,
  \<open>double_exponent\<close> is the exponent \<open>e\<close> with \<open>2^e \<le> x < 2^(e+1)\<close>, found by
  halving or doubling and kept within the range of the format (below \<open>2^-1022\<close> the
  values are subnormal and share the exponent -1022); \<open>quantum\<close> is the distance
  \<open>2^(e-52)\<close> between neighbouring doubles there. The rounded value is the nearest multiple
  of the quantum; when it reaches \<open>2^1024\<close> the result is an infinity.
\<close>

definition round_half_even :: "real \<Rightarrow> int" where
  "round_half_even x =
     (let f = \<lfloor>x\<rfloor>; d = x - of_int f
      in if d < 1 / 2 then f else if 1 / 2 < d then f + 1 else if even f then f else f + 1)"

fun halvings :: "nat \<Rightarrow> real \<Rightarrow> int" where
  "halvings 0 x = 0"
| "halvings (Suc k) x = (if x < 2 then 0 else halvings k (x / 2) + 1)"

fun doublings :: "nat \<Rightarrow> real \<Rightarrow> int" where
  "doublings 0 x = 0"
| "doublings (Suc k) x = (if 1 \<le> x then 0 else doublings k (2 * x) - 1)"

definition double_exponent :: "real \<Rightarrow> int" where
  "double_exponent x = (if 1 \<le> x then halvings 1024 x else doublings 1022 x)"

definition quantum :: "int \<Rightarrow> real" where
  "quantum e = (if 52 \<le> e then 2 ^ nat (e - 52) else 1 / 2 ^ nat (52 - e))"

definition round_double :: "real \<Rightarrow> double" where
  "round_double x =
     (if x = 0 then Num 0
      else
        let q = quantum (double_exponent \<bar>x\<bar>);
            y = of_int (round_half_even (\<bar>x\<bar> / q)) * q
        in if 2 ^ 1024 \<le> y then (if x < 0 then NegInf else PosInf)
           else Num (if x < 0 then - y else y))"

text \<open>\<open>operator<\<close> on doubles: every comparison with NaN is false.\<close>

fun double_less :: "double \<Rightarrow> double \<Rightarrow> bool" where
  "double_less NaN _ = False"
| "double_less _ NaN = False"
| "double_less (Num x) (Num y) = (x < y)"
| "double_less (Num x) PosInf = True"
| "double_less (Num x) NegInf = False"
| "double_less PosInf _ = False"
| "double_less NegInf NegInf = False"
| "double_less NegInf _ = True"

text \<open>\<open>operator>\<close> is \<open>operator<\<close> with the operands exchanged.\<close>

definition double_greater :: "double \<Rightarrow> double \<Rightarrow> bool" where
  "double_greater a b = double_less b a"

text \<open>\<open>std::fabs\<close>.\<close>

fun fabs :: "double \<Rightarrow> double" where
  "fabs (Num x) = Num \<bar>x\<bar>"
| "fabs PosInf = PosInf"
| "fabs NegInf = PosInf"
| "fabs NaN = NaN"

fun double_neg :: "double \<Rightarrow> double" where
  "double_neg (Num x) = Num (- x)"
| "double_neg PosInf = NegInf"
| "double_neg NegInf = PosInf"
| "double_neg NaN = NaN"

fun double_add :: "double \<Rightarrow> double \<Rightarrow> double" where
  "double_add NaN _ = NaN"
| "double_add _ NaN = NaN"
| "double_add (Num x) (Num y) = round_double (x + y)"
| "double_add (Num x) PosInf = PosInf"
| "double_add (Num x) NegInf = NegInf"
| "double_add PosInf NegInf = NaN"
| "double_add PosInf _ = PosInf"
| "double_add NegInf PosInf = NaN"
| "double_add NegInf _ = NegInf"

definition double_sub :: "double \<Rightarrow> double \<Rightarrow> double" where
  "double_sub a b = double_add a (double_neg b)"

text \<open>The sign of a double that is not NaN, as \<open>True\<close> for negative.\<close>

fun double_negative :: "double \<Rightarrow> bool" where
  "double_negative (Num x) = (x < 0)"
| "double_negative NegInf = True"
| "double_negative _ = False"

fun double_mul :: "double \<Rightarrow> double \<Rightarrow> double" where
  "double_mul NaN _ = NaN"
| "double_mul _ NaN = NaN"
| "double_mul (Num x) (Num y) = round_double (x * y)"
| "double_mul (Num x) b =
     (if x = 0 then NaN else if (x < 0) = double_negative b then PosInf else NegInf)"
| "double_mul a (Num y) =
     (if y = 0 then NaN else if (y < 0) = double_negative a then PosInf else NegInf)"
| "double_mul a b = (if double_negative a = double_negative b then PosInf else NegInf)"

text \<open>
  Division. A finite non-zero value divided by zero is an infinity, zero divided by zero
  is NaN; no division raises.
\<close>

fun double_div :: "double \<Rightarrow> double \<Rightarrow> double" where
  "double_div NaN _ = NaN"
| "double_div _ NaN = NaN"
| "double_div (Num x) (Num y) =
     (if y = 0 then (if x = 0 then NaN else if x < 0 then NegInf else PosInf)
      else round_double (x / y))"
| "double_div (Num x) _ = Num 0"
| "double_div a (Num y) = (if (y < 0) = double_negative a then PosInf else NegInf)"
| "double_div _ _ = NaN"

text \<open>\<open>std::numeric_limits< double >::max( )\<close>.\<close>

definition DBL_MAX :: double where
  "DBL_MAX = Num (2 ^ 1024 - 2 ^ 971)"

text \<open>
  The failures of the code. \<open>RuntimeError\<close> is a thrown \<open>std::runtime_error\<close>
  with its message. The other three are not exceptions of the code: dereferencing an
  empty \<open>shared_ptr\<close>, an Eigen size or range assertion, and a read outside a
  \<open>std::vector\<close> are undefined behaviour in an optimised build and abort the process
  in a checked one.
\<close>

datatype error =
    RuntimeError string
  | NullPointerDereference
  | EigenAssertion
  | VectorOutOfRange

section \<open>EstimationConvergenceChecker\<close>

text \<open>
  \<open>int\<close> and \<open>unsigned int\<close> are 32-bit words; an \<open>int\<close> is read in two's
  complement (\<open>sint\<close>) and compared with \<open>word_sle\<close> and \<open>word_sless\<close>.
\<close>

type_synonym cpp_int = "32 word"
type_synonym cpp_unsigned = "32 word"

text \<open>
  The fields have the types of the class: \<open>int\<close>, \<open>double\<close>, \<open>double\<close>,
  \<open>unsigned int\<close>. Member names are written without the trailing underscore of the
  source, here and below.
\<close>

record EstimationConvergenceChecker =
  maximumNumberOfIterations :: cpp_int
  minimumResidualChange :: double
  minimumResidual :: double
  numberOfIterationsWithoutImprovement :: cpp_unsigned

text \<open>
  The constructor takes the iteration ceiling as \<open>unsigned int\<close> and the
  no-improvement count as \<open>int\<close>, and stores each in a field of the other signedness:
  the 32 bits are kept and read the other way.
\<close>

definition EstimationConvergenceChecker_init ::
  "cpp_unsigned \<Rightarrow> double \<Rightarrow> double \<Rightarrow> cpp_int \<Rightarrow> EstimationConvergenceChecker" where
  "EstimationConvergenceChecker_init maximumNumberOfIterations' minimumResidualChange'
     minimumResidual' numberOfIterationsWithoutImprovement' =
   \<lparr> maximumNumberOfIterations = maximumNumberOfIterations',
     minimumResidualChange = minimumResidualChange',
     minimumResidual = minimumResidual',
     numberOfIterationsWithoutImprovement = numberOfIterationsWithoutImprovement' \<rparr>"

text \<open>
  \<open>std::max_element\<close> over a vector of doubles, as the index of the iterator it
  returns: the first of the largest elements under \<open>operator<\<close>; on an empty range
  the end iterator, at distance 0.
\<close>

fun max_element_loop :: "double \<Rightarrow> nat \<Rightarrow> nat \<Rightarrow> double list \<Rightarrow> nat" where
  "max_element_loop largestValue largest i [] = largest"
| "max_element_loop largestValue largest i (x # xs) =
     (if double_less largestValue x then max_element_loop x i (Suc i) xs
      else max_element_loop largestValue largest (Suc i) xs)"

definition max_element :: "double list \<Rightarrow> nat" where
  "max_element xs = (case xs of [] \<Rightarrow> 0 | x # rest \<Rightarrow> max_element_loop x 0 1 rest)"

text \<open>
  The third test subtracts \<open>size( )\<close>, a \<open>size_t\<close>, from the \<open>ptrdiff_t\<close>
  that \<open>std::distance\<close> returns: both operands become 64-bit unsigned, the
  difference wraps around, and it is compared with the \<open>unsigned int\<close> field widened
  to 64 bits.
\<close>

definition distanceMinusSize :: "double list \<Rightarrow> 64 word" where
  "distanceMinusSize rmsResidualHistory =
     word_of_nat (max_element rmsResidualHistory) - word_of_nat (length rmsResidualHistory)"

text \<open>
  \<open>isEstimationConverged\<close>. The second test reads the element at \<open>size( ) - 1\<close>
  with \<open>operator[]\<close>, which is out of range on an empty history. The messages written
  to \<open>std::cout\<close> are left out.
\<close>

definition isEstimationConverged ::
  "EstimationConvergenceChecker \<Rightarrow> cpp_int \<Rightarrow> double list \<Rightarrow> error + bool" where
  "isEstimationConverged c numberOfIterations rmsResidualHistory =
     (if rmsResidualHistory = [] then Inl VectorOutOfRange
      else
        let isConverged = False;
            isConverged =
              (if word_sle (maximumNumberOfIterations c) numberOfIterations then True
               else isConverged);
            isConverged =
              (if double_less (rmsResidualHistory ! (length rmsResidualHistory - 1))
                    (minimumResidual c) then True
               else isConverged);
            isConverged =
              (if distanceMinusSize rmsResidualHistory
                    < ucast (numberOfIterationsWithoutImprovement c) then True
               else isConverged);
            isConverged =
              (if length rmsResidualHistory > 1 then
                 (if double_less
                       (fabs (double_sub
                          (rmsResidualHistory ! (length rmsResidualHistory - 1))
                          (rmsResidualHistory ! (length rmsResidualHistory - 2))))
                       (minimumResidualChange c) then True
                  else isConverged)
               else isConverged)
        in Inr isConverged)"

section \<open>Eigen vectors and matrices\<close>

text \<open>
  \<open>Eigen::VectorXd\<close> is a list of doubles. \<open>Eigen::MatrixXd\<close> keeps its two
  dimensions beside its coefficients, which are held one list per row: a matrix without
  rows still has a number of columns.
\<close>

type_synonym VectorXd = "double list"

record MatrixXd =
  rows :: nat
  cols :: nat
  coeffs :: "double list list"

definition wellFormed :: "MatrixXd \<Rightarrow> bool" where
  "wellFormed m =
     (length (coeffs m) = rows m \<and> list_all (\<lambda>r. length r = cols m) (coeffs m))"

definition VectorXd_Zero :: "nat \<Rightarrow> VectorXd" where
  "VectorXd_Zero n = replicate n (Num 0)"

definition MatrixXd_Zero :: "nat \<Rightarrow> nat \<Rightarrow> MatrixXd" where
  "MatrixXd_Zero r c = \<lparr> rows = r, cols = c, coeffs = replicate r (replicate c (Num 0)) \<rparr>"

text \<open>
  \<open>v.segment( start, n ) = x\<close>. Eigen asserts that the segment lies inside \<open>v\<close>
  and that \<open>x\<close> has \<open>n\<close> coefficients.
\<close>

definition setSegment :: "VectorXd \<Rightarrow> nat \<Rightarrow> nat \<Rightarrow> VectorXd \<Rightarrow> error + VectorXd" where
  "setSegment v start n x =
     (if start + n \<le> length v \<and> length x = n
      then Inr (take start v @ x @ drop (start + n) v)
      else Inl EigenAssertion)"

text \<open>\<open>v.segment( start, n )\<close> read.\<close>

definition segment :: "VectorXd \<Rightarrow> nat \<Rightarrow> nat \<Rightarrow> error + VectorXd" where
  "segment v start n =
     (if start + n \<le> length v then Inr (take n (drop start v)) else Inl EigenAssertion)"

text \<open>
  \<open>m.block( startRow, 0, n, c ) = b\<close>, a block that starts in the first column: the
  block must lie inside \<open>m\<close> and \<open>b\<close> must be \<open>n\<close> by \<open>c\<close>.
\<close>

definition setBlock :: "MatrixXd \<Rightarrow> nat \<Rightarrow> nat \<Rightarrow> nat \<Rightarrow> MatrixXd \<Rightarrow> error + MatrixXd" where
  "setBlock m startRow n c b =
     (if startRow + n \<le> rows m \<and> c \<le> cols m \<and> rows b = n \<and> cols b = c
      then Inr (m\<lparr> coeffs :=
             take startRow (coeffs m)
             @ map2 (\<lambda>new old. new @ drop c old) (coeffs b) (take n (drop startRow (coeffs m)))
             @ drop (startRow + n) (coeffs m) \<rparr>)
      else Inl EigenAssertion)"

text \<open>\<open>m.block( 0, i, m.rows( ), 1 )\<close>, column \<open>i\<close>, read and assigned.\<close>

definition getColumn :: "MatrixXd \<Rightarrow> nat \<Rightarrow> error + VectorXd" where
  "getColumn m i =
     (if i < cols m then Inr (map (\<lambda>r. r ! i) (coeffs m)) else Inl EigenAssertion)"

definition setColumn :: "MatrixXd \<Rightarrow> nat \<Rightarrow> VectorXd \<Rightarrow> error + MatrixXd" where
  "setColumn m i v =
     (if i < cols m \<and> length v = rows m
      then Inr (m\<lparr> coeffs := map2 (\<lambda>r x. r[i := x]) (coeffs m) v \<rparr>)
      else Inl EigenAssertion)"

text \<open>
  Coefficient-wise operations on two vectors; Eigen asserts that the sizes agree.
\<close>

definition cwise :: "(double \<Rightarrow> double \<Rightarrow> double) \<Rightarrow> VectorXd \<Rightarrow> VectorXd \<Rightarrow> error + VectorXd" where
  "cwise f a b = (if length a = length b then Inr (map2 f a b) else Inl EigenAssertion)"

definition vector_minus :: "VectorXd \<Rightarrow> VectorXd \<Rightarrow> error + VectorXd" where
  "vector_minus = cwise double_sub"

definition vector_plus :: "VectorXd \<Rightarrow> VectorXd \<Rightarrow> error + VectorXd" where
  "vector_plus = cwise double_add"

definition cwiseQuotient :: "VectorXd \<Rightarrow> VectorXd \<Rightarrow> error + VectorXd" where
  "cwiseQuotient = cwise double_div"

text \<open>
  \<open>minCoeff\<close> and \<open>maxCoeff\<close>: the visitor starts from the first coefficient and
  replaces it by each later one that compares smaller (larger). Eigen asserts that the
  vector is not empty.
\<close>

definition minCoeff :: "VectorXd \<Rightarrow> error + double" where
  "minCoeff v =
     (case v of [] \<Rightarrow> Inl EigenAssertion
      | x # xs \<Rightarrow> Inr (fold (\<lambda>y res. if double_less y res then y else res) xs x))"

definition maxCoeff :: "VectorXd \<Rightarrow> error + double" where
  "maxCoeff v =
     (case v of [] \<Rightarrow> Inl EigenAssertion
      | x # xs \<Rightarrow> Inr (fold (\<lambda>y res. if double_less res y then y else res) xs x))"

section \<open>Observation data\<close>

text \<open>
  A \<open>std::map\<close> is the list of its entries in the order its iterator visits them,
  which is the ascending order of the keys; \<open>std_map\<close> is the invariant of the
  container. The enumerations \<open>ObservableType\<close> and \<open>LinkEndType\<close> are declared
  outside the files at hand and are carried by the integer values of their enumerators;
  \<open>LinkEnds\<close> is any linearly ordered type \<open>'l\<close>. \<open>TimeType\<close> is \<open>double\<close>.
\<close>

type_synonym ObservableType = nat
type_synonym LinkEndType = nat

definition std_map :: "('k::linorder \<times> 'v) list \<Rightarrow> bool" where
  "std_map m = sorted_wrt (<) (map fst m)"

type_synonym 'l WeightsDataStructure = "(ObservableType \<times> ('l \<times> VectorXd) list) list"

type_synonym 'l SingleObservablePodInputType =
  "('l \<times> (VectorXd \<times> (double list \<times> LinkEndType))) list"

type_synonym 'l PodInputType = "(ObservableType \<times> 'l SingleObservablePodInputType) list"

section \<open>getConcatenatedWeightsVector\<close>

text \<open>The first pair of loops: the total number of weights.\<close>

fun countWeightsPerLinkEnds :: "('l \<times> VectorXd) list \<Rightarrow> nat \<Rightarrow> nat" where
  "countWeightsPerLinkEnds [] totalNumberOfObservations = totalNumberOfObservations"
| "countWeightsPerLinkEnds ((linkEnds, w) # rest) totalNumberOfObservations =
     countWeightsPerLinkEnds rest (totalNumberOfObservations + length w)"

fun countWeights :: "'l WeightsDataStructure \<Rightarrow> nat \<Rightarrow> nat" where
  "countWeights [] totalNumberOfObservations = totalNumberOfObservations"
| "countWeights ((observable, perLinkEnds) # rest) totalNumberOfObservations =
     countWeights rest (countWeightsPerLinkEnds perLinkEnds totalNumberOfObservations)"

text \<open>
  The second pair of loops: each weight vector is assigned to the segment that starts
  at \<open>currentIndex\<close>, and \<open>currentIndex\<close> moves on by its length.
\<close>

fun concatenatePerLinkEnds ::
  "('l \<times> VectorXd) list \<Rightarrow> VectorXd \<times> nat \<Rightarrow> error + (VectorXd \<times> nat)" where
  "concatenatePerLinkEnds [] state = Inr state"
| "concatenatePerLinkEnds ((linkEnds, w) # rest) (concatenatedWeights, currentIndex) =
     (case setSegment concatenatedWeights currentIndex (length w) w of
        Inl e \<Rightarrow> Inl e
      | Inr concatenatedWeights' \<Rightarrow>
          concatenatePerLinkEnds rest (concatenatedWeights', currentIndex + length w))"

fun concatenateWeights ::
  "'l WeightsDataStructure \<Rightarrow> VectorXd \<times> nat \<Rightarrow> error + (VectorXd \<times> nat)" where
  "concatenateWeights [] state = Inr state"
| "concatenateWeights ((observable, perLinkEnds) # rest) state =
     (case concatenatePerLinkEnds perLinkEnds state of
        Inl e \<Rightarrow> Inl e
      | Inr state' \<Rightarrow> concatenateWeights rest state')"

definition getConcatenatedWeightsVector :: "'l WeightsDataStructure \<Rightarrow> error + VectorXd" where
  "getConcatenatedWeightsVector weightsData =
     (let totalNumberOfObservations = countWeights weightsData 0;
          concatenatedWeights = VectorXd_Zero totalNumberOfObservations
      in case concatenateWeights weightsData (concatenatedWeights, 0) of
           Inl e \<Rightarrow> Inl e
         | Inr (concatenatedWeights', currentIndex) \<Rightarrow> Inr concatenatedWeights')"

section \<open>OrbitDeterminationManager\<close>

text \<open>
  An observation manager is used through \<open>computeObservationsWithPartials\<close> alone:
  from the times, the link ends and the reference link end it gives the computed
  observations and their partials, or throws. What it reads besides its arguments, the
  propagated dynamics and the parameter values behind \<open>variationalEquationsSolver_\<close>
  and \<open>parametersToEstimate_\<close>, is a value of a type \<open>'w\<close>.
\<close>

type_synonym ('l, 'w) ObservationManager =
  "double list \<Rightarrow> 'l \<Rightarrow> LinkEndType \<Rightarrow> 'w \<Rightarrow> error + (VectorXd \<times> MatrixXd)"

text \<open>
  The members the estimation uses. \<open>observationManagers_\<close> maps an observable type
  to a shared pointer: \<open>Some None\<close> is an entry that holds the empty pointer.
  \<open>variationalEquationsSolver_\<close> is assigned exactly when
  \<open>integrateAndEstimateOrbit_\<close> is set, and is the empty pointer otherwise.
\<close>

record ('l, 'w) OrbitDeterminationManager =
  integrateAndEstimateOrbit :: bool
  observationManagers :: "ObservableType \<rightharpoonup> ('l, 'w) ObservationManager option"
  currentParameterEstimate :: VectorXd
  dynamicalModel :: 'w

text \<open>
  \<open>std::map::operator[]\<close> on \<open>observationManagers_\<close>: a key that is absent is
  inserted with a value-initialised, that is empty, pointer.
\<close>

definition observationManagers_subscript ::
  "('l, 'w) OrbitDeterminationManager \<Rightarrow> ObservableType \<Rightarrow>
   ('l, 'w) ObservationManager option \<times> ('l, 'w) OrbitDeterminationManager" where
  "observationManagers_subscript odm observable =
     (case observationManagers odm observable of
        None \<Rightarrow>
          (None, odm\<lparr> observationManagers := (observationManagers odm)(observable \<mapsto> None) \<rparr>)
      | Some pointer \<Rightarrow> (pointer, odm))"

text \<open>\<open>std::to_string\<close> of an enumerator: its value in decimal.\<close>

fun to_string :: "nat \<Rightarrow> string" where
  "to_string n =
     (if n < 10 then [''0123456789'' ! n]
      else to_string (n div 10) @ [''0123456789'' ! (n mod 10)])"

text \<open>\<open>getObservationManager\<close>: the checked lookup.\<close>

definition getObservationManager ::
  "('l, 'w) OrbitDeterminationManager \<Rightarrow> ObservableType \<Rightarrow>
   error + ('l, 'w) ObservationManager option" where
  "getObservationManager odm observableType =
     (case observationManagers odm observableType of
        None \<Rightarrow>
          Inl (RuntimeError (''Error when retrieving observation manager of type ''
                 @ to_string observableType @ '', manager not found''))
      | Some pointer \<Rightarrow> Inr pointer)"

text \<open>\<open>getNumberOfObservationsPerLinkEnd\<close>.\<close>

fun getNumberOfObservationsPerLinkEnd :: "'l SingleObservablePodInputType \<Rightarrow> nat list" where
  "getNumberOfObservationsPerLinkEnd [] = []"
| "getNumberOfObservationsPerLinkEnd ((linkEnds, observations, timesAndReference) # rest) =
     length observations # getNumberOfObservationsPerLinkEnd rest"

text \<open>
  \<open>getNumberOfObservationsPerObservable\<close>: the count of each observable type and
  the total.
\<close>

fun countObservationsPerLinkEnds :: "'l SingleObservablePodInputType \<Rightarrow> nat \<Rightarrow> nat" where
  "countObservationsPerLinkEnds [] n = n"
| "countObservationsPerLinkEnds ((linkEnds, observations, timesAndReference) # rest) n =
     countObservationsPerLinkEnds rest (n + length observations)"

fun countObservations ::
  "'l PodInputType \<Rightarrow> (ObservableType \<rightharpoonup> nat) \<times> nat \<Rightarrow> (ObservableType \<rightharpoonup> nat) \<times> nat" where
  "countObservations [] state = state"
| "countObservations ((observable, perLinkEnds) # rest)
       (numberOfObservations, totalNumberOfObservations) =
     (let numberOfObservations = numberOfObservations(observable \<mapsto> 0);
          current = countObservationsPerLinkEnds perLinkEnds 0;
          numberOfObservations = numberOfObservations(observable \<mapsto> current)
      in countObservations rest
           (numberOfObservations, totalNumberOfObservations + current))"

definition getNumberOfObservationsPerObservable ::
  "'l PodInputType \<Rightarrow> (ObservableType \<rightharpoonup> nat) \<times> nat" where
  "getNumberOfObservationsPerObservable observationsAndTimes =
     countObservations observationsAndTimes (Map.empty, 0)"

text \<open>
  \<open>calculateObservationMatrixAndResiduals\<close>. The manager is fetched with
  \<open>operator[]\<close> and dereferenced at once. The loops carry the residual vector, the
  matrix of partials and \<open>startIndex\<close>; the manager object is returned beside the
  result, since the lookup can change \<open>observationManagers_\<close>.
\<close>

fun residualsPerLinkEnds ::
  "ObservableType \<Rightarrow> nat \<Rightarrow> 'l SingleObservablePodInputType \<Rightarrow>
   ('l, 'w) OrbitDeterminationManager \<Rightarrow> VectorXd \<times> MatrixXd \<times> nat \<Rightarrow>
   (error + (VectorXd \<times> MatrixXd \<times> nat)) \<times> ('l, 'w) OrbitDeterminationManager" where
  "residualsPerLinkEnds observable parameterVectorSize [] odm state = (Inr state, odm)"
| "residualsPerLinkEnds observable parameterVectorSize
       ((linkEnds, observations, simulationInputTime, referenceLinkEnd) # rest) odm
       (residuals, partials, startIndex) =
     (case observationManagers_subscript odm observable of
        (None, odm') \<Rightarrow> (Inl NullPointerDereference, odm')
      | (Some manager, odm') \<Rightarrow>
          (case manager simulationInputTime linkEnds referenceLinkEnd (dynamicalModel odm') of
             Inl e \<Rightarrow> (Inl e, odm')
           | Inr (computed, computedPartials) \<Rightarrow>
               (case vector_minus observations computed of
                  Inl e \<Rightarrow> (Inl e, odm')
                | Inr difference \<Rightarrow>
                    (case setSegment residuals startIndex (length observations) difference of
                       Inl e \<Rightarrow> (Inl e, odm')
                     | Inr residuals' \<Rightarrow>
                         (case setBlock partials startIndex (length observations)
                                 parameterVectorSize computedPartials of
                            Inl e \<Rightarrow> (Inl e, odm')
                          | Inr partials' \<Rightarrow>
                              residualsPerLinkEnds observable parameterVectorSize rest odm'
                                (residuals', partials', startIndex + length observations))))))"

fun residualsPerObservable ::
  "nat \<Rightarrow> 'l PodInputType \<Rightarrow> ('l, 'w) OrbitDeterminationManager \<Rightarrow>
   VectorXd \<times> MatrixXd \<times> nat \<Rightarrow>
   (error + (VectorXd \<times> MatrixXd \<times> nat)) \<times> ('l, 'w) OrbitDeterminationManager" where
  "residualsPerObservable parameterVectorSize [] odm state = (Inr state, odm)"
| "residualsPerObservable parameterVectorSize ((observable, perLinkEnds) # rest) odm state =
     (case residualsPerLinkEnds observable parameterVectorSize perLinkEnds odm state of
        (Inl e, odm') \<Rightarrow> (Inl e, odm')
      | (Inr state', odm') \<Rightarrow> residualsPerObservable parameterVectorSize rest odm' state')"

definition calculateObservationMatrixAndResiduals ::
  "('l, 'w) OrbitDeterminationManager \<Rightarrow> 'l PodInputType \<Rightarrow> nat \<Rightarrow> nat \<Rightarrow>
   (error + (VectorXd \<times> MatrixXd)) \<times> ('l, 'w) OrbitDeterminationManager" where
  "calculateObservationMatrixAndResiduals odm observationsAndTimes parameterVectorSize
       totalObservationSize =
     (let partials = MatrixXd_Zero totalObservationSize parameterVectorSize;
          residuals = VectorXd_Zero totalObservationSize;
          startIndex = 0
      in case residualsPerObservable parameterVectorSize observationsAndTimes odm
                (residuals, partials, startIndex) of
           (Inl e, odm') \<Rightarrow> (Inl e, odm')
         | (Inr (residuals', partials', startIndex'), odm') \<Rightarrow>
             (Inr (residuals', partials'), odm'))"

text \<open>
  \<open>normalizeObservationMatrix\<close>. The loop runs over the column indices; the vector
  of normalization terms is created without initial values and every entry is assigned
  in the loop. Dividing a vector by a scalar divides each coefficient.
\<close>

fun normalizeColumns ::
  "nat list \<Rightarrow> VectorXd \<times> MatrixXd \<Rightarrow> error + (VectorXd \<times> MatrixXd)" where
  "normalizeColumns [] state = Inr state"
| "normalizeColumns (i # rest) (normalizationTerms, observationMatrix) =
     (case getColumn observationMatrix i of
        Inl e \<Rightarrow> Inl e
      | Inr currentVector \<Rightarrow>
          (case minCoeff currentVector of
             Inl e \<Rightarrow> Inl e
           | Inr minimum \<Rightarrow>
               (case maxCoeff currentVector of
                  Inl e \<Rightarrow> Inl e
                | Inr maximum \<Rightarrow>
                    (let normalizationTerms =
                           (if double_greater (fabs minimum) maximum
                            then normalizationTerms[i := minimum]
                            else normalizationTerms[i := maximum]);
                         currentVector =
                           map (\<lambda>x. double_div x (normalizationTerms ! i)) currentVector
                     in case setColumn observationMatrix i currentVector of
                          Inl e \<Rightarrow> Inl e
                        | Inr observationMatrix' \<Rightarrow>
                            normalizeColumns rest (normalizationTerms, observationMatrix')))))"

definition normalizeObservationMatrix :: "MatrixXd \<Rightarrow> error + (VectorXd \<times> MatrixXd)" where
  "normalizeObservationMatrix observationMatrix =
     normalizeColumns [0 ..< cols observationMatrix]
       (VectorXd_Zero (cols observationMatrix), observationMatrix)"

section \<open>The collaborators of the estimation\<close>

text \<open>
  The functions the estimation calls and the files at hand do not define are parameters
  of the model: the parameter container (\<open>getFullParameterValues\<close>,
  \<open>resetParameterValues\<close>), the variational equations solver
  (\<open>resetParameterEstimate\<close> of \<open>variationalEquationsSolver_\<close>, here
  \<open>solverResetParameterEstimate\<close>), and the two functions of \<open>linear_algebra\<close>.
  The two that change the dynamical model may throw, and nothing is assumed of the model
  they leave behind when they do.
\<close>

record 'w Collaborators =
  getFullParameterValues :: "'w \<Rightarrow> VectorXd"
  resetParameterValues :: "VectorXd \<Rightarrow> 'w \<Rightarrow> (error + unit) \<times> 'w"
  solverResetParameterEstimate :: "VectorXd \<Rightarrow> bool \<Rightarrow> 'w \<Rightarrow> (error + unit) \<times> 'w"
  performLeastSquaresAdjustmentFromInformationMatrix ::
    "MatrixXd \<Rightarrow> VectorXd \<Rightarrow> VectorXd \<Rightarrow> MatrixXd \<Rightarrow> error + (VectorXd \<times> MatrixXd)"
  getVectorEntryRootMeanSquare :: "VectorXd \<Rightarrow> double"

text \<open>\<open>resetParameterEstimate\<close>.\<close>

definition resetParameterEstimate ::
  "'w Collaborators \<Rightarrow> VectorXd \<Rightarrow> bool \<Rightarrow> ('l, 'w) OrbitDeterminationManager \<Rightarrow>
   (error + unit) \<times> ('l, 'w) OrbitDeterminationManager" where
  "resetParameterEstimate env newParameterEstimate' reintegrateVariationalEquations' odm =
     (case (if integrateAndEstimateOrbit odm
            then solverResetParameterEstimate env newParameterEstimate'
                   reintegrateVariationalEquations' (dynamicalModel odm)
            else resetParameterValues env newParameterEstimate' (dynamicalModel odm)) of
        (Inl e, model) \<Rightarrow> (Inl e, odm\<lparr> dynamicalModel := model \<rparr>)
      | (Inr u, model) \<Rightarrow>
          (Inr (), odm\<lparr> dynamicalModel := model,
                         currentParameterEstimate := newParameterEstimate' \<rparr>))"

section \<open>estimateParameters\<close>

text \<open>
  The input and the output of the estimation, with the values the code reads from
  \<open>PodInput\<close> through its getters and the arguments it passes to the constructor of
  \<open>PodOutput\<close>, in the order of the call.
\<close>

record 'l PodInput =
  observationsAndTimes :: "'l PodInputType"
  initialParameterDeviationEstimate :: VectorXd
  inverseOfAprioriCovariance :: MatrixXd
  weightsMatrixDiagonals :: "'l WeightsDataStructure"
  reintegrateEquationsOnFirstIteration :: bool
  reintegrateVariationalEquations :: bool
  saveStateHistoryForEachIteration :: bool
  saveResidualsAndParametersFromEachIteration :: bool
  saveInformationMatrix :: bool
  printOutput :: bool

record PodOutput =
  parameterEstimate :: VectorXd
  residuals :: VectorXd
  informationMatrix :: MatrixXd
  weightsMatrixDiagonal :: VectorXd
  transformationData :: VectorXd
  inverseNormalizedCovarianceMatrix :: MatrixXd
  residualStandardDeviation :: double
  residualHistoryOutput :: "VectorXd list"
  parameterHistoryOutput :: "VectorXd list"

text \<open>
  The local variables of \<open>estimateParameters\<close> that live across iterations. The two
  histories of propagated states are filled and never read, and are left out, as is the
  output to \<open>std::cout\<close>.
\<close>

record EstimationLoopState =
  numberOfIterations :: cpp_int
  newParameterEstimate :: VectorXd
  oldParameterEstimate :: VectorXd
  bestResidual :: double
  bestParameterEstimate :: VectorXd
  bestTransformationData :: VectorXd
  bestResiduals :: VectorXd
  bestInformationMatrix :: MatrixXd
  bestWeightsMatrixDiagonal :: VectorXd
  bestInverseNormalizedCovarianceMatrix :: MatrixXd
  residualHistory :: "VectorXd list"
  parameterHistory :: "VectorXd list"
  rmsResidualHistory :: "double list"

text \<open>
  The prior information in normalized units: entry \<open>(j, k)\<close> is divided by the
  product of the normalization terms \<open>j\<close> and \<open>k\<close>. Eigen asserts that each
  coefficient read exists.
\<close>

definition normalizeInverseAprioriCovariance ::
  "nat \<Rightarrow> MatrixXd \<Rightarrow> VectorXd \<Rightarrow> error + MatrixXd" where
  "normalizeInverseAprioriCovariance numberOfEstimatedParameters inverseAPrioriCovariance
       transformationData' =
     (if numberOfEstimatedParameters \<le> rows inverseAPrioriCovariance
         \<and> numberOfEstimatedParameters \<le> cols inverseAPrioriCovariance
         \<and> numberOfEstimatedParameters \<le> length transformationData'
      then Inr \<lparr> rows = numberOfEstimatedParameters, cols = numberOfEstimatedParameters,
                 coeffs =
                   map (\<lambda>j. map (\<lambda>k.
                          double_div (coeffs inverseAPrioriCovariance ! j ! k)
                            (double_mul (transformationData' ! j) (transformationData' ! k)))
                        [0 ..< numberOfEstimatedParameters])
                     [0 ..< numberOfEstimatedParameters] \<rparr>
      else Inl EigenAssertion)"

text \<open>\<open>m.block( 0, 0, m.rows( ), c )\<close> read: the first \<open>c\<close> columns.\<close>

definition leftColumns :: "MatrixXd \<Rightarrow> nat \<Rightarrow> error + MatrixXd" where
  "leftColumns m c =
     (if c \<le> cols m then Inr \<lparr> rows = rows m, cols = c, coeffs = map (take c) (coeffs m) \<rparr>
      else Inl EigenAssertion)"

text \<open>
  The first half of the loop body, up to the least-squares solution: the dynamics are
  reset to \<open>newParameterEstimate\<close> (on the first pass only when the input asks for
  it), the residuals and partials are computed and the partials normalized. It gives the
  residuals, the normalized partials, the normalization terms, the weights and the
  output of the least-squares adjustment.
\<close>

definition residualsAndCorrection ::
  "'w Collaborators \<Rightarrow> 'l PodInput \<Rightarrow> nat \<Rightarrow> nat \<Rightarrow>
   ('l, 'w) OrbitDeterminationManager \<Rightarrow> EstimationLoopState \<Rightarrow>
   (error + (VectorXd \<times> MatrixXd \<times> VectorXd \<times> VectorXd \<times> VectorXd \<times> MatrixXd))
   \<times> ('l, 'w) OrbitDeterminationManager" where
  "residualsAndCorrection env podInput parameterVectorSize totalNumberOfObservations odm st =
     (case (if word_sless 0 (numberOfIterations st)
               \<or> reintegrateEquationsOnFirstIteration podInput
            then resetParameterEstimate env (newParameterEstimate st)
                   (reintegrateVariationalEquations podInput) odm
            else (Inr (), odm)) of
        (Inl e, odm1) \<Rightarrow> (Inl e, odm1)
      | (Inr u, odm1) \<Rightarrow>
          if saveStateHistoryForEachIteration podInput \<and> \<not> integrateAndEstimateOrbit odm1
          then (Inl NullPointerDereference, odm1)
          else
            (case calculateObservationMatrixAndResiduals odm1 (observationsAndTimes podInput)
                    parameterVectorSize totalNumberOfObservations of
               (Inl e, odm2) \<Rightarrow> (Inl e, odm2)
             | (Inr (residuals', partials), odm2) \<Rightarrow>
                 (case normalizeObservationMatrix partials of
                    Inl e \<Rightarrow> (Inl e, odm2)
                  | Inr (transformationData', partials') \<Rightarrow>
                      (case normalizeInverseAprioriCovariance parameterVectorSize
                              (inverseOfAprioriCovariance podInput) transformationData' of
                         Inl e \<Rightarrow> (Inl e, odm2)
                       | Inr normalizedInverseAprioriCovarianceMatrix \<Rightarrow>
                           (case leftColumns partials' parameterVectorSize of
                              Inl e \<Rightarrow> (Inl e, odm2)
                            | Inr informationMatrix' \<Rightarrow>
                                (case getConcatenatedWeightsVector
                                        (weightsMatrixDiagonals podInput) of
                                   Inl e \<Rightarrow> (Inl e, odm2)
                                 | Inr weights \<Rightarrow>
                                     (case performLeastSquaresAdjustmentFromInformationMatrix
                                             env informationMatrix' residuals' weights
                                             normalizedInverseAprioriCovarianceMatrix of
                                        Inl e \<Rightarrow> (Inl e, odm2)
                                      | Inr (correction, inverseCovariance) \<Rightarrow>
                                          (Inr (residuals', partials', transformationData',
                                                weights, correction, inverseCovariance),
                                           odm2))))))))"

text \<open>
  The second half of the loop body: the correction is brought back to the units of the
  parameters and added to the estimate, the histories are extended, the data of the best
  iteration are replaced when the root mean square of the residuals is lower than the
  best one so far, and the iteration counter is incremented.
\<close>

definition updateEstimate ::
  "'w Collaborators \<Rightarrow> 'l PodInput \<Rightarrow> nat \<Rightarrow> EstimationLoopState \<Rightarrow>
   VectorXd \<times> MatrixXd \<times> VectorXd \<times> VectorXd \<times> VectorXd \<times> MatrixXd \<Rightarrow>
   error + EstimationLoopState" where
  "updateEstimate env podInput numberOfEstimatedParameters st results =
     (case results of
        (residuals', partials', transformationData', weights, correction, inverseCovariance) \<Rightarrow>
     (let oldParameterEstimate' = newParameterEstimate st in
      case segment transformationData' 0 numberOfEstimatedParameters of
        Inl e \<Rightarrow> Inl e
      | Inr scale \<Rightarrow>
     (case cwiseQuotient correction scale of
        Inl e \<Rightarrow> Inl e
      | Inr parameterAddition \<Rightarrow>
     (case vector_plus oldParameterEstimate' parameterAddition of
        Inl e \<Rightarrow> Inl e
      | Inr newParameterEstimate' \<Rightarrow>
          (let residualHistory' =
                 (if saveResidualsAndParametersFromEachIteration podInput
                  then residualHistory st @ [residuals'] else residualHistory st);
               parameterHistory' =
                 (if saveResidualsAndParametersFromEachIteration podInput
                  then (if numberOfIterations st = 0
                        then parameterHistory st @ [oldParameterEstimate']
                        else parameterHistory st) @ [newParameterEstimate']
                  else parameterHistory st);
               oldParameterEstimate' = newParameterEstimate';
               residualRms = getVectorEntryRootMeanSquare env residuals';
               st1 = st\<lparr> newParameterEstimate := newParameterEstimate',
                          oldParameterEstimate := oldParameterEstimate',
                          residualHistory := residualHistory',
                          parameterHistory := parameterHistory',
                          rmsResidualHistory := rmsResidualHistory st @ [residualRms] \<rparr>
           in if double_less residualRms (bestResidual st)
              then (case getConcatenatedWeightsVector (weightsMatrixDiagonals podInput) of
                      Inl e \<Rightarrow> Inl e
                    | Inr weights' \<Rightarrow>
                        Inr (st1\<lparr> bestResidual := residualRms,
                                  bestParameterEstimate := oldParameterEstimate',
                                  bestResiduals := residuals',
                                  bestInformationMatrix :=
                                    (if saveInformationMatrix podInput then partials'
                                     else bestInformationMatrix st),
                                  bestWeightsMatrixDiagonal := weights',
                                  bestTransformationData := transformationData',
                                  bestInverseNormalizedCovarianceMatrix := inverseCovariance,
                                  numberOfIterations := numberOfIterations st + 1 \<rparr>))
              else Inr (st1\<lparr> numberOfIterations := numberOfIterations st + 1 \<rparr>))))))"

text \<open>One pass through the body of the \<open>do\<close> loop.\<close>

definition estimationIteration ::
  "'w Collaborators \<Rightarrow> 'l PodInput \<Rightarrow> nat \<Rightarrow> nat \<Rightarrow>
   ('l, 'w) OrbitDeterminationManager \<Rightarrow> EstimationLoopState \<Rightarrow>
   (error + EstimationLoopState) \<times> ('l, 'w) OrbitDeterminationManager" where
  "estimationIteration env podInput parameterVectorSize totalNumberOfObservations odm st =
     (case residualsAndCorrection env podInput parameterVectorSize
             totalNumberOfObservations odm st of
        (Inl e, odm') \<Rightarrow> (Inl e, odm')
      | (Inr results, odm') \<Rightarrow>
          (updateEstimate env podInput parameterVectorSize st results, odm'))"

text \<open>
  The \<open>do\<close> loop: the body runs, then the convergence checker decides. The loop is
  a total function: each pass that does not stop leaves the counter below the ceiling of
  the checker, and one step closer to it.
\<close>

lemma updateEstimate_numberOfIterations:
  "updateEstimate env podInput p st results = Inr st' \<Longrightarrow>
   numberOfIterations st' = numberOfIterations st + 1"
  by (auto simp: updateEstimate_def Let_def split: prod.splits sum.splits if_splits)

lemma estimationIteration_numberOfIterations:
  "estimationIteration env podInput p t odm st = (Inr st', odm') \<Longrightarrow>
   numberOfIterations st' = numberOfIterations st + 1"
  by (auto simp: estimationIteration_def split: prod.splits sum.splits
           dest: updateEstimate_numberOfIterations)

lemma isEstimationConverged_False_iterations:
  "isEstimationConverged c n h = Inr False \<Longrightarrow> \<not> word_sle (maximumNumberOfIterations c) n"
  by (auto simp: isEstimationConverged_def Let_def split: if_splits)

lemma iterations_left_decrease:
  fixes m n :: cpp_int
  assumes "\<not> word_sle m (n + 1)"
  shows "unat (m - (n + 1) - 1) < unat (m - n - 1)"
proof -
  have "m \<noteq> n + 1" using assms by auto
  then have nz: "m - n - 1 \<noteq> 0" by (simp add: algebra_simps) 
  have "m - (n + 1) - 1 = (m - n - 1) - 1" by simp
  moreover have "unat ((m - n - 1) - 1) < unat (m - n - 1)"
    using nz by (metis unat_minus_one diff_less unat_gt_0 zero_less_one word_gt_0) 
  ultimately show ?thesis by simp
qed

function estimationLoop ::
  "'w Collaborators \<Rightarrow> EstimationConvergenceChecker \<Rightarrow> 'l PodInput \<Rightarrow> nat \<Rightarrow> nat \<Rightarrow>
   ('l, 'w) OrbitDeterminationManager \<Rightarrow> EstimationLoopState \<Rightarrow>
   (error + EstimationLoopState) \<times> ('l, 'w) OrbitDeterminationManager" where
  "estimationLoop env convergenceChecker podInput parameterVectorSize
       totalNumberOfObservations odm st =
     (case estimationIteration env podInput parameterVectorSize totalNumberOfObservations
             odm st of
        (Inl e, odm') \<Rightarrow> (Inl e, odm')
      | (Inr st', odm') \<Rightarrow>
          (case isEstimationConverged convergenceChecker (numberOfIterations st')
                  (rmsResidualHistory st') of
             Inl e \<Rightarrow> (Inl e, odm')
           | Inr converged \<Rightarrow>
               if converged = False
               then estimationLoop env convergenceChecker podInput parameterVectorSize
                      totalNumberOfObservations odm' st'
               else (Inr st', odm')))"
  by pat_completeness auto
termination
proof (relation "measure (\<lambda>(env, c, podInput, p, t, odm, st).
          unat (maximumNumberOfIterations c - numberOfIterations st - 1))", goal_cases)
  case 1
  show ?case by simp
next
  case (2 env c podInput p t odm st x y b ba)
  from 2 have it: "estimationIteration env podInput p t odm st = (Inr b, y)" by simp
  from 2 have nc: "isEstimationConverged c (numberOfIterations b) (rmsResidualHistory b) = Inr False"
    by simp
  have eq: "numberOfIterations b = numberOfIterations st + 1"
    by (rule estimationIteration_numberOfIterations [OF it])
  have "\<not> word_sle (maximumNumberOfIterations c) (numberOfIterations st + 1)"
    using isEstimationConverged_False_iterations [OF nc] eq by simp
  then have "unat (maximumNumberOfIterations c - (numberOfIterations st + 1) - 1)
      < unat (maximumNumberOfIterations c - numberOfIterations st - 1)"
    by (rule iterations_left_decrease)
  then show ?case by (simp only: in_measure prod.case eq)
qed

declare estimationLoop.simps [simp del]

text \<open>The values of the locals before the loop.\<close>

definition initialLoopState :: "nat \<Rightarrow> nat \<Rightarrow> VectorXd \<Rightarrow> VectorXd \<Rightarrow> EstimationLoopState" where
  "initialLoopState parameterVectorSize totalNumberOfObservations newParameterEstimate'
       oldParameterEstimate' =
     \<lparr> numberOfIterations = 0,
       newParameterEstimate = newParameterEstimate',
       oldParameterEstimate = oldParameterEstimate',
       bestResidual = DBL_MAX,
       bestParameterEstimate = VectorXd_Zero parameterVectorSize,
       bestTransformationData = VectorXd_Zero parameterVectorSize,
       bestResiduals = VectorXd_Zero totalNumberOfObservations,
       bestInformationMatrix = MatrixXd_Zero totalNumberOfObservations parameterVectorSize,
       bestWeightsMatrixDiagonal = VectorXd_Zero totalNumberOfObservations,
       bestInverseNormalizedCovarianceMatrix =
         MatrixXd_Zero parameterVectorSize parameterVectorSize,
       residualHistory = [],
       parameterHistory = [],
       rmsResidualHistory = [] \<rparr>"


text \<open>The convergence checker that \<open>estimateParameters\<close> takes by default.\<close>

definition defaultConvergenceChecker :: EstimationConvergenceChecker where
  "defaultConvergenceChecker =
     EstimationConvergenceChecker_init 5 (Num 0) (round_double (1 / 10 ^ 20)) 2"


section \<open>Quantities of the specification\<close>

text \<open>
  The specification's words for the third stopping rule: the number of iterations since
  the best, that is lowest, root mean square of the residuals was seen. It is the number
  of entries of the history that follow the first occurrence of its lowest value.
\<close>

fun min_element_loop :: "double \<Rightarrow> nat \<Rightarrow> nat \<Rightarrow> double list \<Rightarrow> nat" where
  "min_element_loop smallestValue smallest i [] = smallest"
| "min_element_loop smallestValue smallest i (x # xs) =
     (if double_less x smallestValue then min_element_loop x i (Suc i) xs
      else min_element_loop smallestValue smallest (Suc i) xs)"

definition iterationsSinceBestResidual :: "double list \<Rightarrow> nat" where
  "iterationsSinceBestResidual history =
     (case history of [] \<Rightarrow> 0
      | x # rest \<Rightarrow> length rest - min_element_loop x 0 1 rest)"

text \<open>
  The normalization term that one pass of the loop of \<open>normalizeObservationMatrix\<close>
  computes from a column, and the column of a matrix with a given index.
\<close>

definition scaleFactor :: "VectorXd \<Rightarrow> double" where
  "scaleFactor v =
     (case (minCoeff v, maxCoeff v) of
        (Inr minimum, Inr maximum) \<Rightarrow>
          if double_greater (fabs minimum) maximum then minimum else maximum
      | _ \<Rightarrow> NaN)"

definition column :: "MatrixXd \<Rightarrow> nat \<Rightarrow> VectorXd" where
  "column m i = map (\<lambda>r. r ! i) (coeffs m)"

text \<open>
  The entries of a map of maps in the order in which the nested loops visit them: each
  entry with the key of the outer map, the key of the inner map, and the data.
\<close>

definition flatten :: "('o \<times> ('l \<times> 'd) list) list \<Rightarrow> ('o \<times> 'l \<times> 'd) list" where
  "flatten m = concat (map (\<lambda>(observable, perLinkEnds).
                  map (\<lambda>(linkEnds, d). (observable, linkEnds, d)) perLinkEnds) m)"

text \<open>
  The stacking order that a map of maps defines: for each entry in the order of the
  loops, and each index below the number of values of the entry, the triple of observable
  type, link ends and index.
\<close>

definition stackingOrder ::
  "('d \<Rightarrow> nat) \<Rightarrow> (ObservableType \<times> ('l \<times> 'd) list) list \<Rightarrow>
   (ObservableType \<times> 'l \<times> nat) list" where
  "stackingOrder count m =
     concat (map (\<lambda>(observable, linkEnds, d).
               map (\<lambda>j. (observable, linkEnds, j)) [0 ..< count d]) (flatten m))"

text \<open>
  The invariant of a \<open>std::map\<close> whose values are \<open>std::map\<close>s, and the
  specification's condition on the weights: they mirror the observations when both have
  the same observable types, under each type the same link ends, and under each pair as
  many weights as there are observations.
\<close>

definition nested_std_map :: "('o::linorder \<times> ('l::linorder \<times> 'd) list) list \<Rightarrow> bool" where
  "nested_std_map m = (std_map m \<and> list_all (\<lambda>(observable, perLinkEnds). std_map perLinkEnds) m)"

definition mirrors :: "'l WeightsDataStructure \<Rightarrow> 'l PodInputType \<Rightarrow> bool" where
  "mirrors weightsData obs =
     (fst ` set weightsData = fst ` set obs
      \<and> (\<forall>(observable, weightsPerLinkEnds) \<in> set weightsData.
          \<forall>(observable', dataPerLinkEnds) \<in> set obs.
            observable = observable' \<longrightarrow>
              fst ` set weightsPerLinkEnds = fst ` set dataPerLinkEnds
              \<and> (\<forall>(linkEnds, w) \<in> set weightsPerLinkEnds.
                  \<forall>(linkEnds', d) \<in> set dataPerLinkEnds.
                    linkEnds = linkEnds' \<longrightarrow> length w = length (fst d))))"

text \<open>
  What the residual assembler gets from the manager for one entry of the observations,
  and the residuals and rows of partials it derives from it; \<open>groupComputed\<close> holds
  when the manager returned a result of the sizes that the assignments require.
  \<open>managersWellFormed\<close> says that the matrices the managers return are well formed,
  as every \<open>MatrixXd\<close> is.
\<close>

definition computedFor ::
  "('l, 'w) OrbitDeterminationManager \<Rightarrow>
   ObservableType \<times> 'l \<times> VectorXd \<times> double list \<times> LinkEndType \<Rightarrow>
   error + (VectorXd \<times> MatrixXd)" where
  "computedFor odm g =
     (case g of (observable, linkEnds, observations, simulationInputTime, referenceLinkEnd) \<Rightarrow>
        (case observationManagers odm observable of
           Some (Some manager) \<Rightarrow> manager simulationInputTime linkEnds referenceLinkEnd (dynamicalModel odm)
         | _ \<Rightarrow> Inl NullPointerDereference))"

definition groupResiduals ::
  "('l, 'w) OrbitDeterminationManager \<Rightarrow>
   ObservableType \<times> 'l \<times> VectorXd \<times> double list \<times> LinkEndType \<Rightarrow> VectorXd" where
  "groupResiduals odm g =
     (case computedFor odm g of
        Inr (computed, computedPartials) \<Rightarrow> map2 double_sub (fst (snd (snd g))) computed
      | Inl e \<Rightarrow> [])"

definition groupPartials ::
  "('l, 'w) OrbitDeterminationManager \<Rightarrow>
   ObservableType \<times> 'l \<times> VectorXd \<times> double list \<times> LinkEndType \<Rightarrow> double list list" where
  "groupPartials odm g =
     (case computedFor odm g of
        Inr (computed, computedPartials) \<Rightarrow> coeffs computedPartials
      | Inl e \<Rightarrow> [])"

definition groupComputed ::
  "('l, 'w) OrbitDeterminationManager \<Rightarrow> nat \<Rightarrow>
   ObservableType \<times> 'l \<times> VectorXd \<times> double list \<times> LinkEndType \<Rightarrow> bool" where
  "groupComputed odm parameterVectorSize g =
     (case computedFor odm g of
        Inr (computed, computedPartials) \<Rightarrow>
          length computed = length (fst (snd (snd g)))
          \<and> rows computedPartials = length (fst (snd (snd g)))
          \<and> cols computedPartials = parameterVectorSize
      | Inl e \<Rightarrow> False)"

definition managersWellFormed :: "('l, 'w) OrbitDeterminationManager \<Rightarrow> bool" where
  "managersWellFormed odm =
     (\<forall>observable manager simulationInputTime linkEnds referenceLinkEnd computed computedPartials.
        observationManagers odm observable = Some (Some manager) \<longrightarrow>
        manager simulationInputTime linkEnds referenceLinkEnd (dynamicalModel odm)
          = Inr (computed, computedPartials) \<longrightarrow>
        wellFormed computedPartials)"

text \<open>
  An estimation problem small enough to be run by hand, for the witnesses. The only
  parameter is \<open>a\<close>, the model of an observation at time \<open>t\<close> is \<open>a * t\<close>
  with partial \<open>t\<close>, and the dynamical model is the vector of the parameter values.
  There is a manager for the observable types 0 and 1. The first data set has four
  observations under three pairs of observable type and link ends; the second, the input
  of the estimation, has the single observation 2 at time 1 with weight 1 and no prior
  information. The least-squares collaborator solves the normal equation of one parameter;
  the root mean square is taken of vectors with one entry only, where it is the absolute
  value of the entry. \<open>exampleState1\<close> is the state of the loop after the first
  iteration on that input.
\<close>

definition exampleManager :: "(nat, VectorXd) ObservationManager" where
  "exampleManager simulationInputTime linkEnds referenceLinkEnd model =
     Inr (map (\<lambda>t. double_mul (model ! 0) t) simulationInputTime,
          \<lparr> rows = length simulationInputTime, cols = 1,
            coeffs = map (\<lambda>t. [t]) simulationInputTime \<rparr>)"

definition exampleManagerObject :: "(nat, VectorXd) OrbitDeterminationManager" where
  "exampleManagerObject =
     \<lparr> integrateAndEstimateOrbit = False,
       observationManagers = [0 \<mapsto> Some exampleManager, 1 \<mapsto> Some exampleManager],
       currentParameterEstimate = [Num 0],
       dynamicalModel = [Num 0] \<rparr>"

definition exampleObservations :: "nat PodInputType" where
  "exampleObservations =
     [(0, [(0, ([Num 2], [Num 1], 0)), (1, ([Num 3, Num 4], [Num 1, Num 2], 0))]),
      (1, [(0, ([Num 5], [Num 3], 0))])]"

definition exampleWeights :: "nat WeightsDataStructure" where
  "exampleWeights =
     [(0, [(0, [Num 1]), (1, [Num 2, Num 3])]),
      (1, [(0, [Num 4])])]"

definition exampleLeastSquares ::
  "MatrixXd \<Rightarrow> VectorXd \<Rightarrow> VectorXd \<Rightarrow> MatrixXd \<Rightarrow> error + (VectorXd \<times> MatrixXd)" where
  "exampleLeastSquares partials residuals' weights apriori =
     (let column = map (\<lambda>row. row ! 0) (coeffs partials);
          normal = foldr double_add
                     (map2 (\<lambda>x wt. double_mul (double_mul x wt) x) column weights)
                     (coeffs apriori ! 0 ! 0);
          rhs = foldr double_add
                  (map2 (\<lambda>x (wt, r). double_mul (double_mul x wt) r) column
                     (zip weights residuals'))
                  (Num 0)
      in Inr ([double_div rhs normal],
              \<lparr> rows = 1, cols = 1, coeffs = [[double_div (Num 1) normal]] \<rparr>))"

definition exampleRootMeanSquare :: "VectorXd \<Rightarrow> double" where
  "exampleRootMeanSquare v = (case v of [x] \<Rightarrow> fabs x | _ \<Rightarrow> NaN)"

definition exampleCollaborators :: "VectorXd Collaborators" where
  "exampleCollaborators =
     \<lparr> getFullParameterValues = (\<lambda>model. model),
       resetParameterValues = (\<lambda>v model. (Inr (), v)),
       solverResetParameterEstimate = (\<lambda>v reintegrate model. (Inr (), v)),
       performLeastSquaresAdjustmentFromInformationMatrix = exampleLeastSquares,
       getVectorEntryRootMeanSquare = exampleRootMeanSquare \<rparr>"

definition examplePodInput :: "nat PodInput" where
  "examplePodInput =
     \<lparr> observationsAndTimes = [(0, [(0, ([Num 2], [Num 1], 0))])],
       initialParameterDeviationEstimate = [Num 0],
       inverseOfAprioriCovariance = \<lparr> rows = 1, cols = 1, coeffs = [[Num 0]] \<rparr>,
       weightsMatrixDiagonals = [(0, [(0, [Num 1])])],
       reintegrateEquationsOnFirstIteration = False,
       reintegrateVariationalEquations = False,
       saveStateHistoryForEachIteration = False,
       saveResidualsAndParametersFromEachIteration = True,
       saveInformationMatrix = True,
       printOutput = False \<rparr>"

definition exampleState1 :: EstimationLoopState where
  "exampleState1 =
     \<lparr> numberOfIterations = 1,
       newParameterEstimate = [Num 2],
       oldParameterEstimate = [Num 2],
       bestResidual = Num 2,
       bestParameterEstimate = [Num 2],
       bestTransformationData = [Num 1],
       bestResiduals = [Num 2],
       bestInformationMatrix = \<lparr> rows = 1, cols = 1, coeffs = [[Num 1]] \<rparr>,
       bestWeightsMatrixDiagonal = [Num 1],
       bestInverseNormalizedCovarianceMatrix = \<lparr> rows = 1, cols = 1, coeffs = [[Num 1]] \<rparr>,
       residualHistory = [[Num 2]],
       parameterHistory = [[Num 0], [Num 2]],
       rmsResidualHistory = [Num 2] \<rparr>"


text \<open>
  The locals of the loop that hold the data of the best iteration, and what holds of the
  best root mean square after every pass: it is a number, no recorded root mean square
  is below it, and it is one of the recorded ones or still the initial value.
\<close>

definition bestSnapshot ::
  "EstimationLoopState \<Rightarrow>
   double \<times> VectorXd \<times> VectorXd \<times> MatrixXd \<times> VectorXd \<times> VectorXd \<times> MatrixXd" where
  "bestSnapshot st =
     (bestResidual st, bestParameterEstimate st, bestResiduals st, bestInformationMatrix st,
      bestWeightsMatrixDiagonal st, bestTransformationData st,
      bestInverseNormalizedCovarianceMatrix st)"




section \<open>Properties of the rounding\<close>

text \<open>
  Integers below \<open>2^53\<close> in absolute value are doubles, and a real between -1 and 1
  rounds to a double between -1 and 1.
\<close>

lemma round_half_even_of_int [simp]: "round_half_even (of_int n) = n"
  by (simp add: round_half_even_def)

lemma round_half_even_nonneg: "0 \<le> x \<Longrightarrow> 0 \<le> round_half_even x"
  by (auto simp: round_half_even_def Let_def)

lemma round_half_even_le:
  assumes "x \<le> of_int m"
  shows "round_half_even x \<le> m"
proof -
  have f: "\<lfloor>x\<rfloor> \<le> m" using assms by (simp add: floor_le_iff)
  show ?thesis
  proof (cases "\<lfloor>x\<rfloor> = m")
    case True
    then have "of_int m \<le> x" by (metis of_int_floor_le)
    then have "x = of_int m" using assms by simp
    then show ?thesis by simp
  next
    case False
    then have "\<lfloor>x\<rfloor> + 1 \<le> m" using f by simp
    then show ?thesis by (auto simp: round_half_even_def Let_def)
  qed
qed

lemma halvings_nonneg: "0 \<le> halvings n x"
  by (induction n x rule: halvings.induct) auto

lemma halvings_le: "x < 2 ^ Suc m \<Longrightarrow> halvings n x \<le> int m"
proof (induction n x arbitrary: m rule: halvings.induct)
  case (1 x)
  then show ?case by simp
next
  case (2 k x)
  show ?case
  proof (cases "x < 2")
    case True
    then show ?thesis by simp
  next
    case False
    then obtain m' where m: "m = Suc m'" using "2.prems" by (cases m) auto
    have "x / 2 < 2 ^ Suc m'" using "2.prems" m by simp
    then have "halvings k (x / 2) \<le> int m'" using False by (intro "2.IH") simp_all
    then show ?thesis using False m by simp
  qed
qed

lemma doublings_nonpos: "doublings n x \<le> 0"
  by (induction n x rule: doublings.induct) auto

lemma doublings_ge: "- int n \<le> doublings n x"
  by (induction n x rule: doublings.induct) auto

lemma quantum_pos: "0 < quantum e"
  by (simp add: quantum_def)

lemma round_double_of_int:
  assumes "\<bar>k\<bar> < 2 ^ 53"
  shows "round_double (of_int k) = Num (of_int k)"
proof (cases "k = 0")
  case True
  then show ?thesis by (simp add: round_double_def)
next
  case False
  define a :: real where "a = \<bar>of_int k\<bar>"
  have a: "a = of_int \<bar>k\<bar>" "1 \<le> a" using False by (simp_all add: a_def)
  have "real_of_int \<bar>k\<bar> < real_of_int (2 ^ 53)"
    using assms by (simp only: of_int_less_iff)
  then have "a < 2 ^ Suc 52" by (simp add: a(1))
  then have e: "0 \<le> double_exponent a" "double_exponent a \<le> 52"
    using a(2) halvings_nonneg[of 1024 a] halvings_le[of a 52 1024]
    by (simp_all add: double_exponent_def)
  define j where "j = nat (52 - double_exponent a)"
  have q: "quantum (double_exponent a) = 1 / 2 ^ j"
    using e by (auto simp: quantum_def j_def)
  have "a / quantum (double_exponent a) = a * 2 ^ j"
    unfolding q by simp
  also have "\<dots> = of_int (\<bar>k\<bar> * 2 ^ j)"
    unfolding a(1) by simp
  finally have r: "round_half_even (a / quantum (double_exponent a)) = \<bar>k\<bar> * 2 ^ j"
    by (simp only: round_half_even_of_int)
  have "of_int (round_half_even (a / quantum (double_exponent a))) * quantum (double_exponent a)
          = of_int (\<bar>k\<bar> * 2 ^ j) * (1 / 2 ^ j)"
    by (simp only: r) (simp only: q)
  also have "\<dots> = of_int \<bar>k\<bar>" by simp
  finally have y: "of_int (round_half_even (a / quantum (double_exponent a)))
                     * quantum (double_exponent a) = a"
    unfolding a(1) .
  have "a < 2 ^ 1024"
  proof -
    have "(2::real) ^ 53 \<le> 2 ^ 1024" by (rule power_increasing) simp_all
    then show ?thesis using \<open>a < 2 ^ Suc 52\<close> by simp
  qed
  then show ?thesis
    using False y unfolding round_double_def a_def[symmetric]
    by (auto simp: Let_def a_def)
qed

lemma round_double_numeral [simp]:
  "(numeral n :: int) < 2 ^ 53 \<Longrightarrow> round_double (numeral n) = Num (numeral n)"
  using round_double_of_int[of "numeral n"] by simp

lemma round_double_zero [simp]: "round_double 0 = Num 0"
  by (simp add: round_double_def)

lemma round_double_one [simp]: "round_double 1 = Num 1"
  using round_double_of_int[of 1] by simp

lemma round_double_minus:
  "round_double (- x) = (case round_double x of Num y \<Rightarrow> Num (- y) | PosInf \<Rightarrow> NegInf
                          | NegInf \<Rightarrow> PosInf | NaN \<Rightarrow> NaN)"
  by (auto simp: round_double_def Let_def)

lemma round_double_neg_numeral [simp]:
  "(numeral n :: int) < 2 ^ 53 \<Longrightarrow> round_double (- numeral n) = Num (- numeral n)"
  by (simp add: round_double_minus)

lemma round_double_minus_one [simp]: "round_double (- 1) = Num (- 1)"
  by (simp add: round_double_minus)

lemma doublings_numeral:
  "doublings (numeral n) x = (if 1 \<le> x then 0 else doublings (pred_numeral n) (2 * x) - 1)"
  by (simp add: numeral_eq_Suc)

lemma halvings_numeral:
  "halvings (numeral n) x = (if x < 2 then 0 else halvings (pred_numeral n) (x / 2) + 1)"
  by (simp add: numeral_eq_Suc)

lemmas round_double_eval =
  round_double_def double_exponent_def doublings_numeral halvings_numeral quantum_def
  round_half_even_def

lemma double_exponent_unit:
  assumes "0 < a" "a \<le> 1"
  shows "- 1022 \<le> double_exponent a \<and> double_exponent a \<le> 0"
proof (cases "1 \<le> a")
  case True
  then have "a = 1" using assms by simp
  then show ?thesis by (simp add: double_exponent_def numeral_eq_Suc)
next
  case False
  then show ?thesis
    using doublings_nonpos[of 1022 a] doublings_ge[of 1022 a]
    by (simp add: double_exponent_def)
qed

lemma round_double_unit:
  assumes "\<bar>x\<bar> \<le> 1"
  shows "\<exists>y. round_double x = Num y \<and> - 1 \<le> y \<and> y \<le> 1"
proof (cases "x = 0")
  case True
  then show ?thesis by simp
next
  case False
  define a where "a = \<bar>x\<bar>"
  have a: "0 < a" "a \<le> 1" using False assms by (simp_all add: a_def)
  note e = double_exponent_unit[OF a]
  define j where "j = nat (52 - double_exponent a)"
  have q: "quantum (double_exponent a) = 1 / 2 ^ j"
    using e by (auto simp: quantum_def j_def)
  define n where "n = round_half_even (a / quantum (double_exponent a))"
  have "a / quantum (double_exponent a) = a * 2 ^ j" unfolding q by simp
  also have "\<dots> \<le> 1 * 2 ^ j" using a(2) by (intro mult_right_mono) simp_all
  finally have le: "a / quantum (double_exponent a) \<le> of_int (2 ^ j)" by simp
  have n: "0 \<le> n" "n \<le> 2 ^ j"
    unfolding n_def using a(1) quantum_pos[of "double_exponent a"] le
    by (auto intro!: round_half_even_nonneg round_half_even_le)
  define y where "y = of_int n * quantum (double_exponent a)"
  have "y = of_int n / 2 ^ j" by (simp add: y_def q)
  moreover have "real_of_int n \<le> real_of_int (2 ^ j)"
    using n(2) by (simp only: of_int_le_iff)
  then have "real_of_int n \<le> 2 ^ j" by simp
  ultimately have y: "0 \<le> y" "y \<le> 1" using n(1) by (simp_all add: divide_le_eq)
  have "(1::real) < 2 ^ 1024" by (rule one_less_power) simp_all
  then have "\<not> 2 ^ 1024 \<le> y" using y(2) by linarith
  then show ?thesis
    using False y unfolding round_double_def a_def[symmetric] n_def[symmetric] y_def[symmetric]
    by (auto simp: Let_def n_def[symmetric] a_def[symmetric] y_def[symmetric])
qed

section \<open>Properties of the convergence checker\<close>

lemma max_element_loop_bound:
  "largest < i \<Longrightarrow> max_element_loop v largest i xs < i + length xs"
proof (induction xs arbitrary: v largest i)
  case Nil
  then show ?case by simp
next
  case (Cons x xs)
  have "max_element_loop x i (Suc i) xs < Suc i + length xs"
    by (rule Cons.IH) simp
  moreover have "max_element_loop v largest (Suc i) xs < Suc i + length xs"
    by (rule Cons.IH) (use Cons.prems in simp)
  ultimately show ?case by simp
qed

lemma max_element_less: "xs \<noteq> [] \<Longrightarrow> max_element xs < length xs"
  using max_element_loop_bound[of 0 1] by (auto simp: max_element_def split: list.splits)

lemma uint_word_of_nat_64: 
  assumes "n < 2 ^ 63" shows "uint (word_of_nat n :: 64 word) = int n"
proof -
  have "unat (word_of_nat n :: 64 word) = n mod 2 ^ 64"
    by (simp add: unat_of_nat)
  also have "\<dots> = n" using assms by simp
  finally have "unat (word_of_nat n :: 64 word) = n" .
  then show ?thesis by (metis uint_nat)
qed

lemma wrapped_difference:
  assumes "a < b" "b < 2 ^ 63"
  shows "uint (word_of_nat a - word_of_nat b :: 64 word) = 2 ^ 64 - (int b - int a)"
proof -
  have "a < 2 ^ 63" using assms by simp
  then have "uint (word_of_nat a - word_of_nat b :: 64 word) = (int a - int b) mod 2 ^ 64"
    using assms(2) by (simp add: uint_word_ariths uint_word_of_nat_64)
  also have "\<dots> = (int a - int b + 2 ^ 64) mod 2 ^ 64" by simp
  also have "\<dots> = int a - int b + 2 ^ 64" using assms by (intro mod_pos_pos_trivial) auto
  finally show ?thesis by simp
qed

lemma distanceMinusSize_not_less:
  assumes "xs \<noteq> []" "length xs < 2 ^ 63"
  shows "\<not> distanceMinusSize xs < ucast (t :: cpp_unsigned)"
proof -
  have "uint (distanceMinusSize xs) = 2 ^ 64 - (int (length xs) - int (max_element xs))"
    unfolding distanceMinusSize_def using assms max_element_less[OF assms(1)]
    by (intro wrapped_difference) auto
  moreover have "uint (ucast t :: 64 word) < 2 ^ 32"
    using uint_bounded[of t] by (simp add: uint_up_ucast is_up)
  ultimately show ?thesis using assms(2) by (simp add: word_less_def)
qed

lemma nth_second_last:
  assumes "2 \<le> length h"
  shows "h ! (length h - 2) = last (butlast h)"
proof -
  have ne: "butlast h \<noteq> []" using assms by (cases h rule: rev_cases) auto
  have "last (butlast h) = butlast h ! (length (butlast h) - 1)"
    using ne by (rule last_conv_nth)
  also have "\<dots> = h ! (length (butlast h) - 1)"
    using assms by (intro nth_butlast) simp
  also have "length (butlast h) - 1 = length h - 2" by simp
  finally show ?thesis by simp
qed

lemma isEstimationConverged_iff:
  assumes "h \<noteq> []" "length h < 2 ^ 63"
  shows "isEstimationConverged c n h =
     Inr (sint (maximumNumberOfIterations c) \<le> sint n
          \<or> double_less (last h) (minimumResidual c)
          \<or> (2 \<le> length h
              \<and> double_less (fabs (double_sub (last h) (last (butlast h))))
                    (minimumResidualChange c)))"
proof -
  have l: "h ! (length h - Suc 0) = last h" using assms(1) by (simp add: last_conv_nth)
  have b: "2 \<le> length h \<Longrightarrow> h ! (length h - 2) = last (butlast h)"
    by (rule nth_second_last)
  show ?thesis
    using assms distanceMinusSize_not_less[OF assms] b
    by (auto simp: isEstimationConverged_def Let_def l word_sle_eq)
qed

text \<open>
  C8. For every iteration count and every non-empty history, the check returns true when
  the iteration count has reached the maximum number of iterations, or the last root mean
  square is below the minimum residual, or the history has at least two entries and the
  absolute value of the difference of its last two, as the machine computes it, is below
  the minimum residual change. With a single entry the difference is not looked at, and
  for a history of fewer than \<open>2^63\<close> entries these are the only cases in which the
  check returns true.
\<close>

theorem isEstimationConverged_stops:
  assumes "h \<noteq> []"
  shows "(sint (maximumNumberOfIterations c) \<le> sint n
          \<or> double_less (last h) (minimumResidual c)
          \<or> (2 \<le> length h
              \<and> double_less (fabs (double_sub (last h) (last (butlast h))))
                    (minimumResidualChange c))
          \<longrightarrow> isEstimationConverged c n h = Inr True)
     \<and> (length h = 1 \<longrightarrow>
           isEstimationConverged c n h =
             Inr (sint (maximumNumberOfIterations c) \<le> sint n
                  \<or> double_less (last h) (minimumResidual c)))
     \<and> (length h < 2 ^ 63 \<longrightarrow>
           isEstimationConverged c n h =
             Inr (sint (maximumNumberOfIterations c) \<le> sint n
                  \<or> double_less (last h) (minimumResidual c)
                  \<or> (2 \<le> length h
                      \<and> double_less (fabs (double_sub (last h) (last (butlast h))))
                            (minimumResidualChange c))))"
proof -
  have l: "h ! (length h - Suc 0) = last h"
    using assms(1) by (simp add: last_conv_nth)
  have b: "2 \<le> length h \<Longrightarrow> h ! (length h - 2) = last (butlast h)"
    by (rule nth_second_last)
  have 1: "isEstimationConverged c n h = Inr True"
    if "sint (maximumNumberOfIterations c) \<le> sint n
          \<or> double_less (last h) (minimumResidual c)
          \<or> (2 \<le> length h
              \<and> double_less (fabs (double_sub (last h) (last (butlast h))))
                    (minimumResidualChange c))"
    using that assms b
    by (auto simp: isEstimationConverged_def Let_def l word_sle_eq)
  have 3: "isEstimationConverged c n h =
             Inr (sint (maximumNumberOfIterations c) \<le> sint n
                  \<or> double_less (last h) (minimumResidual c)
                  \<or> (2 \<le> length h
                      \<and> double_less (fabs (double_sub (last h) (last (butlast h))))
                            (minimumResidualChange c)))"
    if "length h < 2 ^ 63"
    using assms that by (rule isEstimationConverged_iff)
  have 2: "isEstimationConverged c n h =
             Inr (sint (maximumNumberOfIterations c) \<le> sint n
                  \<or> double_less (last h) (minimumResidual c))"
    if "length h = 1"
  proof -
    have "length h < 2 ^ 63" using that by simp
    from 3[OF this] show ?thesis using that by simp
  qed
  show ?thesis using 1 2 3 by blast
qed

text \<open>
  Three runs of the check with a ceiling of 5 iterations and minimum residual 0. After two
  iterations with the history 3, 2 and minimum residual change 2 the difference rule
  stops the estimation. After one iteration with the single entry 3 the same checker does
  not stop it. The third history holds the doubles nearest to 0.5 and 0.1 and the minimum
  residual change is the double nearest to 0.4: the exact difference is below it, the
  computed difference is rounded to that very double, and the check returns false.
\<close>

theorem isEstimationConverged_stops_witness:
  "[Num 3, Num 2] \<noteq> []
   \<and> 2 \<le> length [Num 3, Num 2]
   \<and> double_less (fabs (double_sub (last [Num 3, Num 2]) (last (butlast [Num 3, Num 2]))))
         (minimumResidualChange (EstimationConvergenceChecker_init 5 (Num 2) (Num 0) 2))
   \<and> isEstimationConverged (EstimationConvergenceChecker_init 5 (Num 2) (Num 0) 2) 2
         [Num 3, Num 2] = Inr True
   \<and> length [Num 3] = 1
   \<and> isEstimationConverged (EstimationConvergenceChecker_init 5 (Num 2) (Num 0) 2) 1
         [Num 3] = Inr False"
  using isEstimationConverged_stops
          [of "[Num 3, Num 2]" "EstimationConvergenceChecker_init 5 (Num 2) (Num 0) 2" 2]
        isEstimationConverged_stops
          [of "[Num 3]" "EstimationConvergenceChecker_init 5 (Num 2) (Num 0) 2" 1]
  by (simp add: EstimationConvergenceChecker_init_def double_sub_def)

lemma isEstimationConverged_rounded_difference:
  "isEstimationConverged
     (EstimationConvergenceChecker_init 5 (Num (3602879701896397 / 2 ^ 53)) (Num 0) 2) 1
     [Num (1 / 2), Num (3602879701896397 / 2 ^ 55)] = Inr False
   \<and> \<bar>3602879701896397 / 2 ^ 55 - 1 / 2\<bar> < (3602879701896397 / 2 ^ 53 :: real)"
  by (simp add: isEstimationConverged_def EstimationConvergenceChecker_init_def
        distanceMinusSize_def max_element_def double_sub_def round_double_eval Let_def
        word_sle_eq)

text \<open>
  C2. The check is claimed to return true when the number of iterations since the lowest
  root mean square exceeds \<open>numberOfIterationsWithoutImprovement_\<close>. With a ceiling of
  10 iterations, no-improvement count 2 and the history 1, 2, 4, 8 after four iterations,
  three iterations have passed since the lowest value and the check returns false.
\<close>

theorem isEstimationConverged_ignores_iterations_without_improvement:
  "unat (numberOfIterationsWithoutImprovement
           (EstimationConvergenceChecker_init 10 (Num 0) (Num (1 / 10 ^ 20)) 2))
     < iterationsSinceBestResidual [Num 1, Num 2, Num 4, Num 8]
   \<and> isEstimationConverged
         (EstimationConvergenceChecker_init 10 (Num 0) (Num (1 / 10 ^ 20)) 2) 4
         [Num 1, Num 2, Num 4, Num 8] = Inr False"
  by (simp add: isEstimationConverged_def EstimationConvergenceChecker_init_def
        distanceMinusSize_def max_element_def double_sub_def iterationsSinceBestResidual_def)

section \<open>Properties of the normalization\<close>

lemma getColumn_column: "i < cols m \<Longrightarrow> getColumn m i = Inr (column m i)"
  by (simp add: getColumn_def column_def)

lemma length_column: "wellFormed m \<Longrightarrow> length (column m i) = rows m"
  by (simp add: column_def wellFormed_def)

lemma setColumn_ok:
  assumes "wellFormed m" "i < cols m" "length v = rows m"
  shows "\<exists>m'. setColumn m i v = Inr m' \<and> wellFormed m' \<and> rows m' = rows m \<and> cols m' = cols m
          \<and> (\<forall>k. k < cols m \<longrightarrow> column m' k = (if k = i then v else column m k))"
proof -
  define m' where "m' = m\<lparr> coeffs := map2 (\<lambda>r x. r[i := x]) (coeffs m) v \<rparr>"
  have len: "length (coeffs m) = length v" using assms by (simp add: wellFormed_def)
  have rowlen: "\<And>j. j < length v \<Longrightarrow> length (coeffs m ! j) = cols m"
    using assms(1) len by (simp add: wellFormed_def list_all_length)
  have 1: "setColumn m i v = Inr m'" using assms by (simp add: setColumn_def m'_def)
  have 2: "wellFormed m'"
    using assms len rowlen by (auto simp: wellFormed_def m'_def list_all_length)
  have 3: "column m' k = (if k = i then v else column m k)" if "k < cols m" for k
    using that len rowlen assms(2)
    by (auto simp: column_def m'_def intro!: nth_equalityI)
  show ?thesis using 1 2 3 by (auto simp: m'_def)
qed

lemma normalizeColumns_step:
  assumes "wellFormed m" "i < cols m" "0 < rows m" "i < length t"
  shows "\<exists>m'. normalizeColumns (i # rest) (t, m) =
            normalizeColumns rest (t[i := scaleFactor (column m i)], m')
          \<and> wellFormed m' \<and> rows m' = rows m \<and> cols m' = cols m
          \<and> (\<forall>k. k < cols m \<longrightarrow> column m' k =
                (if k = i then map (\<lambda>x. double_div x (scaleFactor (column m i))) (column m i)
                 else column m k))"
proof -
  let ?v = "column m i"
  have ne: "?v \<noteq> []" using assms length_column[OF assms(1), of i] by auto
  then obtain x xs where v: "?v = x # xs" by (cases ?v) auto
  obtain mn where mn: "minCoeff ?v = Inr mn" by (simp add: minCoeff_def v)
  obtain mx where mx: "maxCoeff ?v = Inr mx" by (simp add: maxCoeff_def v)
  have sf: "scaleFactor ?v = (if double_greater (fabs mn) mx then mn else mx)"
    by (simp add: scaleFactor_def mn mx)
  let ?w = "map (\<lambda>x. double_div x (scaleFactor ?v)) ?v"
  have "length ?w = rows m" using length_column[OF assms(1)] by simp
  from setColumn_ok[OF assms(1,2) this] obtain m' where
    m': "setColumn m i ?w = Inr m'" "wellFormed m'" "rows m' = rows m" "cols m' = cols m"
      "\<forall>k. k < cols m \<longrightarrow> column m' k = (if k = i then ?w else column m k)"
    by blast
  have "normalizeColumns (i # rest) (t, m) =
            normalizeColumns rest (t[i := scaleFactor (column m i)], m')"
    using assms(2,4) m'(1)
    by (cases "double_greater (fabs mn) mx") (simp_all add: getColumn_column mn mx sf Let_def)
  then show ?thesis using m' by blast
qed

lemma normalizeColumns_columns:
  assumes "wellFormed m" "0 < rows m" "\<forall>i \<in> set is. i < cols m" "length t = cols m"
    "distinct is"
  shows "\<exists>t' m'. normalizeColumns is (t, m) = Inr (t', m')
          \<and> wellFormed m' \<and> rows m' = rows m \<and> cols m' = cols m \<and> length t' = length t
          \<and> (\<forall>k. k < cols m \<longrightarrow>
                (if k \<in> set is
                 then t' ! k = scaleFactor (column m k)
                      \<and> column m' k =
                          map (\<lambda>x. double_div x (scaleFactor (column m k))) (column m k)
                 else t' ! k = t ! k \<and> column m' k = column m k))"
  using assms
proof (induction "is" arbitrary: t m)
  case Nil
  then show ?case by simp
next
  case (Cons i rest)
  have i: "i < cols m" "i < length t" using Cons.prems by auto
  from normalizeColumns_step[OF Cons.prems(1) i(1) Cons.prems(2) i(2), of rest]
  obtain m1 where m1:
    "normalizeColumns (i # rest) (t, m) =
       normalizeColumns rest (t[i := scaleFactor (column m i)], m1)"
    "wellFormed m1" "rows m1 = rows m" "cols m1 = cols m"
    "\<forall>k. k < cols m \<longrightarrow> column m1 k =
        (if k = i then map (\<lambda>x. double_div x (scaleFactor (column m i))) (column m i)
         else column m k)"
    by blast
  let ?t1 = "t[i := scaleFactor (column m i)]"
  have "\<exists>t' m'. normalizeColumns rest (?t1, m1) = Inr (t', m')
          \<and> wellFormed m' \<and> rows m' = rows m1 \<and> cols m' = cols m1 \<and> length t' = length ?t1
          \<and> (\<forall>k. k < cols m1 \<longrightarrow>
                (if k \<in> set rest
                 then t' ! k = scaleFactor (column m1 k)
                      \<and> column m' k =
                          map (\<lambda>x. double_div x (scaleFactor (column m1 k))) (column m1 k)
                 else t' ! k = ?t1 ! k \<and> column m' k = column m1 k))"
    using Cons.prems m1 by (intro Cons.IH) auto
  then obtain t' m' where r:
    "normalizeColumns rest (?t1, m1) = Inr (t', m')"
    "wellFormed m'" "rows m' = rows m1" "cols m' = cols m1" "length t' = length ?t1"
    "\<forall>k. k < cols m1 \<longrightarrow>
                (if k \<in> set rest
                 then t' ! k = scaleFactor (column m1 k)
                      \<and> column m' k =
                          map (\<lambda>x. double_div x (scaleFactor (column m1 k))) (column m1 k)
                 else t' ! k = ?t1 ! k \<and> column m' k = column m1 k)"
    by blast
  have notin: "i \<notin> set rest" using Cons.prems(5) by simp
  have "\<forall>k. k < cols m \<longrightarrow>
                (if k \<in> set (i # rest)
                 then t' ! k = scaleFactor (column m k)
                      \<and> column m' k =
                          map (\<lambda>x. double_div x (scaleFactor (column m k))) (column m k)
                 else t' ! k = t ! k \<and> column m' k = column m k)"
  proof (intro allI impI)
    fix k assume k: "k < cols m"
    show "if k \<in> set (i # rest)
                 then t' ! k = scaleFactor (column m k)
                      \<and> column m' k =
                          map (\<lambda>x. double_div x (scaleFactor (column m k))) (column m k)
                 else t' ! k = t ! k \<and> column m' k = column m k"
    proof (cases "k = i")
      case True
      then show ?thesis using r(6) m1(4,5) k notin i by simp
    next
      case False
      then show ?thesis using r(6) m1(4,5) k by simp
    qed
  qed
  then show ?case using r m1 by simp
qed

lemma normalizeObservationMatrix_columns:
  assumes "wellFormed m" "0 < rows m"
  shows "\<exists>t' m'. normalizeObservationMatrix m = Inr (t', m')
          \<and> wellFormed m' \<and> rows m' = rows m \<and> cols m' = cols m \<and> length t' = cols m
          \<and> (\<forall>k. k < cols m \<longrightarrow>
                 t' ! k = scaleFactor (column m k)
                 \<and> column m' k =
                     map (\<lambda>x. double_div x (scaleFactor (column m k))) (column m k))"
proof -
  have "\<exists>t' m'. normalizeColumns [0 ..< cols m] (VectorXd_Zero (cols m), m) = Inr (t', m')
          \<and> wellFormed m' \<and> rows m' = rows m \<and> cols m' = cols m
          \<and> length t' = length (VectorXd_Zero (cols m))
          \<and> (\<forall>k. k < cols m \<longrightarrow>
                (if k \<in> set [0 ..< cols m]
                 then t' ! k = scaleFactor (column m k)
                      \<and> column m' k =
                          map (\<lambda>x. double_div x (scaleFactor (column m k))) (column m k)
                 else t' ! k = VectorXd_Zero (cols m) ! k \<and> column m' k = column m k))"
    using assms by (intro normalizeColumns_columns) (simp_all add: VectorXd_Zero_def)
  then show ?thesis
    by (simp add: normalizeObservationMatrix_def VectorXd_Zero_def)
qed

lemma fold_min_zero:
  "fold (\<lambda>y res. if double_less y res then y else res) (replicate n (Num 0)) (Num 0) = Num 0"
  by (induction n) simp_all

lemma fold_max_zero:
  "fold (\<lambda>y res. if double_less res y then y else res) (replicate n (Num 0)) (Num 0) = Num 0"
  by (induction n) simp_all

lemma minCoeff_zero: "0 < n \<Longrightarrow> minCoeff (replicate n (Num 0)) = Inr (Num 0)"
  by (cases n) (simp_all add: minCoeff_def fold_min_zero del: fold_replicate)

lemma maxCoeff_zero: "0 < n \<Longrightarrow> maxCoeff (replicate n (Num 0)) = Inr (Num 0)"
  by (cases n) (simp_all add: maxCoeff_def fold_max_zero del: fold_replicate)

lemma scaleFactor_zero: "0 < n \<Longrightarrow> scaleFactor (replicate n (Num 0)) = Num 0"
  by (simp add: scaleFactor_def minCoeff_zero maxCoeff_zero double_greater_def)

lemma fold_min_Num:
  "fold (\<lambda>y res. if double_less y res then y else res) (map Num xs) (Num a)
     = Num (fold min xs a)"
  by (induction xs arbitrary: a) (auto simp: min_def)

lemma fold_max_Num:
  "fold (\<lambda>y res. if double_less res y then y else res) (map Num xs) (Num a)
     = Num (fold max xs a)"
  by (induction xs arbitrary: a) (auto simp: max_def)

lemma minCoeff_Num:
  assumes "xs \<noteq> []"
  shows "minCoeff (map Num xs) = Inr (Num (Min (set xs)))"
proof -
  obtain y ys where xs: "xs = y # ys" using assms by (cases xs) auto
  have "minCoeff (map Num xs) = Inr (Num (fold min ys y))"
    by (simp add: xs minCoeff_def fold_min_Num)
  also have "fold min ys y = Min (set xs)"
    unfolding xs by (rule Min.set_eq_fold [symmetric])
  finally show ?thesis .
qed

lemma maxCoeff_Num:
  assumes "xs \<noteq> []"
  shows "maxCoeff (map Num xs) = Inr (Num (Max (set xs)))"
proof -
  obtain y ys where xs: "xs = y # ys" using assms by (cases xs) auto
  have "maxCoeff (map Num xs) = Inr (Num (fold max ys y))"
    by (simp add: xs maxCoeff_def fold_max_Num)
  also have "fold max ys y = Max (set xs)"
    unfolding xs by (rule Max.set_eq_fold [symmetric])
  finally show ?thesis .
qed

lemma scaleFactor_Num:
  assumes "xs \<noteq> []"
  shows "scaleFactor (map Num xs) =
     Num (if \<bar>Min (set xs)\<bar> > \<bar>Max (set xs)\<bar> then Min (set xs) else Max (set xs))"
proof -
  define mn where "mn = Min (set xs)"
  define mx where "mx = Max (set xs)"
  have le: "mn \<le> mx" using assms by (simp add: mn_def mx_def)
  have "scaleFactor (map Num xs) = Num (if \<bar>mn\<bar> > mx then mn else mx)"
    using assms
    by (simp add: scaleFactor_def minCoeff_Num maxCoeff_Num double_greater_def mn_def mx_def)
  also have "(if \<bar>mn\<bar> > mx then mn else mx) = (if \<bar>mn\<bar> > \<bar>mx\<bar> then mn else mx)"
    using le by (auto simp: abs_if split: if_splits)
  finally show ?thesis unfolding mn_def mx_def .
qed

lemma larger_extreme_bounds:
  fixes xs :: "real list"
  assumes "x \<in> set xs"
  shows "\<bar>x\<bar> \<le> \<bar>if \<bar>Min (set xs)\<bar> > \<bar>Max (set xs)\<bar> then Min (set xs) else Max (set xs)\<bar>"
proof -
  define mn where "mn = Min (set xs)"
  define mx where "mx = Max (set xs)"
  have "mn \<le> x" "x \<le> mx" using assms(1) by (simp_all add: mn_def mx_def)
  then have "\<bar>x\<bar> \<le> \<bar>if \<bar>mn\<bar> > \<bar>mx\<bar> then mn else mx\<bar>" 
    by (auto simp: abs_if split: if_splits)
  then show ?thesis unfolding mn_def mx_def .
qed

lemma quotient_in_unit_interval:
  fixes x s :: real
  assumes "\<bar>x\<bar> \<le> \<bar>s\<bar>" "s \<noteq> 0"
  shows "- 1 \<le> x / s \<and> x / s \<le> 1"
proof -
  have "\<bar>x / s\<bar> = \<bar>x\<bar> / \<bar>s\<bar>" by (rule abs_divide)
  also have "\<dots> \<le> 1" using assms by (simp add: divide_le_eq_1)
  finally have a: "\<bar>x / s\<bar> \<le> 1" .
  have "x / s \<le> 1" "- (x / s) \<le> 1" using abs_le_iff [THEN iffD1, OF a] by blast+
  then show ?thesis by linarith
qed

lemma getColumn_Inr: "getColumn m i = Inr v \<Longrightarrow> i < cols m \<and> column m i = v"
  by (auto simp: getColumn_def column_def split: if_splits)

text \<open>
  C7. When a column of the matrix is identically zero, the normalization returns without
  an error, the normalization term of that column is zero, and the column is divided by
  it: every entry of the column becomes zero divided by zero, which is NaN. The matrix
  has at least one row; on a matrix without rows \<open>minCoeff\<close> fails its assertion.
\<close>

theorem normalizeObservationMatrix_zero_column:
  assumes "wellFormed m" and "0 < rows m"
    and "getColumn m i = Inr (replicate (rows m) (Num 0))"
  shows "\<exists>t' m'. normalizeObservationMatrix m = Inr (t', m')
           \<and> t' ! i = Num 0
           \<and> getColumn m' i = Inr (map (\<lambda>x. double_div x (Num 0)) (replicate (rows m) (Num 0)))
           \<and> getColumn m' i = Inr (replicate (rows m) NaN)"
proof -
  from getColumn_Inr[OF assms(3)]
  have i: "i < cols m" and c: "column m i = replicate (rows m) (Num 0)" by simp_all
  have sf: "scaleFactor (column m i) = Num 0"
    unfolding c using assms(2) by (rule scaleFactor_zero)
  from normalizeObservationMatrix_columns[OF assms(1,2)] obtain t' m' where r:
    "normalizeObservationMatrix m = Inr (t', m')" "cols m' = cols m"
    "\<forall>k. k < cols m \<longrightarrow>
        t' ! k = scaleFactor (column m k)
        \<and> column m' k = map (\<lambda>x. double_div x (scaleFactor (column m k))) (column m k)"
    by blast
  have "t' ! i = Num 0" using r(3) i sf by simp
  moreover have "column m' i = map (\<lambda>x. double_div x (Num 0)) (replicate (rows m) (Num 0))"
    using r(3) i sf c by simp
  ultimately show ?thesis
    using r(1,2) i by (auto simp: getColumn_column)
qed

theorem normalizeObservationMatrix_zero_column_witness:
  "wellFormed \<lparr> rows = 2, cols = 2, coeffs = [[Num 1, Num 0], [Num 2, Num 0]] \<rparr>
   \<and> getColumn \<lparr> rows = 2, cols = 2, coeffs = [[Num 1, Num 0], [Num 2, Num 0]] \<rparr> 1
       = Inr (replicate 2 (Num 0))
   \<and> (\<exists>t' m'. normalizeObservationMatrix
                  \<lparr> rows = 2, cols = 2, coeffs = [[Num 1, Num 0], [Num 2, Num 0]] \<rparr>
                = Inr (t', m')
              \<and> t' ! 1 = Num 0 \<and> getColumn m' 1 = Inr [NaN, NaN])"
  using normalizeObservationMatrix_zero_column
          [of "\<lparr> rows = 2, cols = 2, coeffs = [[Num 1, Num 0], [Num 2, Num 0]] \<rparr>" 1]
  by (simp add: wellFormed_def getColumn_def numeral_2_eq_2)

text \<open>
  C6. For a column of finite values that is not identically zero, the normalization
  term is the one of the column's minimum and maximum with the larger absolute value,
  with its sign; the column is replaced by its quotient by that term, and every entry
  then is a finite value between -1 and 1.
\<close>

theorem normalizeObservationMatrix_column_range:
  assumes "wellFormed m"
    and "getColumn m i = Inr (map Num xs)"
    and "\<exists>x \<in> set xs. x \<noteq> 0"
    and "s = (if \<bar>Min (set xs)\<bar> > \<bar>Max (set xs)\<bar> then Min (set xs) else Max (set xs))"
  shows "\<exists>t' m'. normalizeObservationMatrix m = Inr (t', m')
           \<and> t' ! i = Num s
           \<and> getColumn m' i = Inr (map (\<lambda>x. double_div (Num x) (Num s)) xs)
           \<and> (\<forall>x \<in> set xs. \<exists>q. double_div (Num x) (Num s) = Num q \<and> - 1 \<le> q \<and> q \<le> 1)"
proof -
  from getColumn_Inr[OF assms(2)]
  have i: "i < cols m" and c: "column m i = map Num xs" by simp_all
  have ne: "xs \<noteq> []" using assms(3) by auto
  have "length (column m i) = rows m" using assms(1) by (rule length_column)
  then have "length xs = rows m" by (simp add: c)
  then have rows: "0 < rows m" using ne by (cases xs) auto
  have sf: "scaleFactor (column m i) = Num s"
    unfolding c assms(4) using ne by (rule scaleFactor_Num)
  have bound: "\<bar>x\<bar> \<le> \<bar>s\<bar>" if "x \<in> set xs" for x
    unfolding assms(4) using that by (rule larger_extreme_bounds)
  have nz: "s \<noteq> 0" using assms(3) bound by fastforce
  from normalizeObservationMatrix_columns[OF assms(1) rows] obtain t' m' where r:
    "normalizeObservationMatrix m = Inr (t', m')" "cols m' = cols m"
    "\<forall>k. k < cols m \<longrightarrow>
        t' ! k = scaleFactor (column m k)
        \<and> column m' k = map (\<lambda>x. double_div x (scaleFactor (column m k))) (column m k)"
    by blast
  have "t' ! i = Num s" using r(3) i sf by simp
  moreover have "column m' i = map (\<lambda>x. double_div (Num x) (Num s)) xs"
    using r(3) i sf c by (simp add: comp_def)
  moreover have "\<forall>x \<in> set xs. \<exists>q. double_div (Num x) (Num s) = Num q \<and> - 1 \<le> q \<and> q \<le> 1"
  proof
    fix x assume "x \<in> set xs"
    then have "\<bar>x\<bar> \<le> \<bar>s\<bar>" by (rule bound)
    then have "- 1 \<le> x / s \<and> x / s \<le> 1" using nz by (rule quotient_in_unit_interval)
    then have "x / s \<le> 1" "- (x / s) \<le> 1" by linarith+
    then have "\<bar>x / s\<bar> \<le> 1" by (rule abs_leI)
    then have "\<exists>q. round_double (x / s) = Num q \<and> - 1 \<le> q \<and> q \<le> 1"
      by (rule round_double_unit)
    then show "\<exists>q. double_div (Num x) (Num s) = Num q \<and> - 1 \<le> q \<and> q \<le> 1"
      using nz by simp
  qed
  ultimately show ?thesis
    using r(1,2) i by (auto simp: getColumn_column)
qed

theorem normalizeObservationMatrix_column_range_witness:
  "wellFormed \<lparr> rows = 2, cols = 2, coeffs = [[Num 1, Num (- 4)], [Num 2, Num 2]] \<rparr>
   \<and> getColumn \<lparr> rows = 2, cols = 2, coeffs = [[Num 1, Num (- 4)], [Num 2, Num 2]] \<rparr> 1
       = Inr (map Num [- 4, 2])
   \<and> (\<exists>x \<in> set [- 4, 2 :: real]. x \<noteq> 0)
   \<and> (\<exists>t' m'. normalizeObservationMatrix
                  \<lparr> rows = 2, cols = 2, coeffs = [[Num 1, Num (- 4)], [Num 2, Num 2]] \<rparr>
                = Inr (t', m')
              \<and> t' ! 1 = Num (- 4) \<and> getColumn m' 1 = Inr [Num 1, Num (- 1 / 2)])"
proof -
  have half: "round_double (- (1 / 2)) = Num (- (1 / 2))"
    by (simp add: round_double_eval Let_def)
  show ?thesis
    using normalizeObservationMatrix_column_range
          [of "\<lparr> rows = 2, cols = 2, coeffs = [[Num 1, Num (- 4)], [Num 2, Num 2]] \<rparr>" 1
              "[- 4, 2]" "- 4"]
    by (simp add: wellFormed_def getColumn_def half)
qed

section \<open>Properties of the two assemblers\<close>

lemma flatten_Nil [simp]: "flatten [] = []"
  by (simp add: flatten_def)

lemma flatten_Cons [simp]:
  "flatten ((t, p) # rest) = map (\<lambda>(l, d). (t, l, d)) p @ flatten rest"
  by (simp add: flatten_def)

lemma countWeightsPerLinkEnds_sum:
  "countWeightsPerLinkEnds p n = n + sum_list (map (\<lambda>(l, w). length w) p)"
  by (induction p n rule: countWeightsPerLinkEnds.induct) simp_all

lemma countWeights_sum:
  "countWeights w n = n + sum_list (map (\<lambda>(t, l, d). length d) (flatten w))"
  by (induction w n rule: countWeights.induct)
     (simp_all add: countWeightsPerLinkEnds_sum comp_def case_prod_unfold)

lemma concatenatePerLinkEnds_append:
  assumes "currentIndex + sum_list (map (\<lambda>(l, w). length w) p) \<le> length cw"
  shows "concatenatePerLinkEnds p (cw, currentIndex) =
     Inr (take currentIndex cw @ concat (map snd p)
            @ drop (currentIndex + sum_list (map (\<lambda>(l, w). length w) p)) cw,
          currentIndex + sum_list (map (\<lambda>(l, w). length w) p))"
  using assms
proof (induction p "(cw, currentIndex)" arbitrary: cw currentIndex
        rule: concatenatePerLinkEnds.induct)
  case 1
  then show ?case by simp
next
  case (2 linkEnds w rest cw currentIndex)
  let ?cw' = "take currentIndex cw @ w @ drop (currentIndex + length w) cw"
  have s: "setSegment cw currentIndex (length w) w = Inr ?cw'"
    using "2.prems" by (simp add: setSegment_def)
  have len: "length ?cw' = length cw" using "2.prems" by simp
  have "concatenatePerLinkEnds rest (?cw', currentIndex + length w) =
     Inr (take (currentIndex + length w) ?cw' @ concat (map snd rest)
            @ drop (currentIndex + length w + sum_list (map (\<lambda>(l, w). length w) rest)) ?cw',
          currentIndex + length w + sum_list (map (\<lambda>(l, w). length w) rest))"
    using "2.prems" s by (intro "2.hyps"[OF s]) (simp_all only: len, simp)
  moreover have "take (currentIndex + length w) ?cw' = take currentIndex cw @ w"
    using "2.prems" by simp
  moreover have "drop (currentIndex + length w + sum_list (map (\<lambda>(l, w). length w) rest)) ?cw'
      = drop (currentIndex + length w + sum_list (map (\<lambda>(l, w). length w) rest)) cw"
    using "2.prems" by (simp add: ac_simps)
  ultimately show ?case using s by (simp add: add.assoc)
qed

lemma concatenateWeights_append:
  assumes "currentIndex + sum_list (map (\<lambda>(t, l, d). length d) (flatten w)) \<le> length cw"
  shows "concatenateWeights w (cw, currentIndex) =
     Inr (take currentIndex cw @ concat (map (\<lambda>(t, l, d). d) (flatten w))
            @ drop (currentIndex + sum_list (map (\<lambda>(t, l, d). length d) (flatten w))) cw,
          currentIndex + sum_list (map (\<lambda>(t, l, d). length d) (flatten w)))"
  using assms
proof (induction w "(cw, currentIndex)" arbitrary: cw currentIndex
        rule: concatenateWeights.induct)
  case 1
  then show ?case by simp
next
  case (2 observable p rest cw currentIndex)
  let ?n = "sum_list (map (\<lambda>(l, w). length w) p)"
  let ?m = "sum_list (map (\<lambda>(t, l, d). length d) (flatten rest))"
  let ?cw' = "take currentIndex cw @ concat (map snd p) @ drop (currentIndex + ?n) cw"
  have total: "sum_list (map (\<lambda>(t, l, d). length d) (flatten ((observable, p) # rest))) = ?n + ?m"
    by (simp add: comp_def case_prod_unfold)
  have lenp: "length (concat (map snd p)) = ?n"
    by (simp add: length_concat comp_def case_prod_unfold)
  have bound: "currentIndex + ?n + ?m \<le> length cw" using "2.prems" total by simp
  have s: "concatenatePerLinkEnds p (cw, currentIndex) = Inr (?cw', currentIndex + ?n)"
    using bound by (intro concatenatePerLinkEnds_append) simp
  have len: "length ?cw' = length cw" using bound lenp by simp
  have "concatenateWeights rest (?cw', currentIndex + ?n) =
     Inr (take (currentIndex + ?n) ?cw' @ concat (map (\<lambda>(t, l, d). d) (flatten rest))
            @ drop (currentIndex + ?n + ?m) ?cw',
          currentIndex + ?n + ?m)"
    using bound by (intro "2.hyps"[OF s]) (simp only: len)
  moreover have "take (currentIndex + ?n) ?cw' = take currentIndex cw @ concat (map snd p)"
    using bound lenp by simp
  moreover have "drop (currentIndex + ?n + ?m) ?cw' = drop (currentIndex + ?n + ?m) cw"
    using bound lenp by (simp add: ac_simps)
  moreover have "concat (map (\<lambda>(t, l, d). d) (flatten ((observable, p) # rest)))
      = concat (map snd p) @ concat (map (\<lambda>(t, l, d). d) (flatten rest))"
    by (simp add: comp_def case_prod_unfold)
  ultimately show ?case using s total by (simp add: add.assoc)
qed

lemma getConcatenatedWeightsVector_concat:
  "getConcatenatedWeightsVector w = Inr (concat (map (\<lambda>(t, l, d). d) (flatten w)))"
proof -
  let ?n = "sum_list (map (\<lambda>(t, l, d). length d) (flatten w))"
  have "length (concat (map (\<lambda>(t, l, d). d) (flatten w))) = ?n"
    by (simp add: length_concat comp_def case_prod_unfold)
  moreover have "concatenateWeights w (VectorXd_Zero ?n, 0) =
     Inr (take 0 (VectorXd_Zero ?n) @ concat (map (\<lambda>(t, l, d). d) (flatten w))
            @ drop (0 + ?n) (VectorXd_Zero ?n), 0 + ?n)"
    by (intro concatenateWeights_append) (simp add: VectorXd_Zero_def)
  ultimately show ?thesis
    by (simp add: getConcatenatedWeightsVector_def countWeights_sum VectorXd_Zero_def)
qed

lemma residualsPerLinkEnds_Cons_Inr:
  assumes "residualsPerLinkEnds t P ((l, ov, simulationInputTime, ref) # rest) odm (res, jac, idx)
             = (Inr r, odm')"
  obtains mgr comp part diff res1 jac1 where
    "observationManagers odm t = Some (Some mgr)"
    "mgr simulationInputTime l ref (dynamicalModel odm) = Inr (comp, part)"
    "vector_minus ov comp = Inr diff"
    "setSegment res idx (length ov) diff = Inr res1"
    "setBlock jac idx (length ov) P part = Inr jac1"
    "residualsPerLinkEnds t P rest odm (res1, jac1, idx + length ov) = (Inr r, odm')"
  using assms
  by (auto simp: observationManagers_subscript_def
           split: option.splits sum.splits prod.splits)

lemma setBlock_rows:
  assumes "setBlock jac idx n P part = Inr jac1" "wellFormed jac" "cols jac = P"
    "wellFormed part"
  shows "coeffs jac1 = take idx (coeffs jac) @ coeffs part @ drop (idx + n) (coeffs jac)"
    and "wellFormed jac1" and "rows jac1 = rows jac" and "cols jac1 = cols jac"
    and "idx + n \<le> rows jac" and "rows part = n" and "cols part = P"
proof -
  from assms(1) have c: "idx + n \<le> rows jac" "rows part = n" "cols part = P"
    and j: "jac1 = jac\<lparr> coeffs := take idx (coeffs jac)
             @ map2 (\<lambda>new old. new @ drop P old) (coeffs part) (take n (drop idx (coeffs jac)))
             @ drop (idx + n) (coeffs jac) \<rparr>"
    by (auto simp: setBlock_def split: if_splits)
  have lenp: "length (coeffs part) = n" using assms(4) c by (simp add: wellFormed_def)
  have lenj: "length (coeffs jac) = rows jac" using assms(2) by (simp add: wellFormed_def)
  have rowj: "\<forall>r \<in> set (coeffs jac). length r = P"
    using assms(2,3) by (simp add: wellFormed_def list_all_iff)
  have rowp: "\<forall>r \<in> set (coeffs part). length r = P"
    using assms(4) c by (simp add: wellFormed_def list_all_iff)
  have "map2 (\<lambda>new old. new @ drop P old) (coeffs part) (take n (drop idx (coeffs jac)))
          = coeffs part"
  proof (rule nth_equalityI)
    show "length (map2 (\<lambda>new old. new @ drop P old) (coeffs part)
                    (take n (drop idx (coeffs jac)))) = length (coeffs part)"
      using lenp lenj c by simp
  next
    fix i assume "i < length (map2 (\<lambda>new old. new @ drop P old) (coeffs part)
                    (take n (drop idx (coeffs jac))))"
    then have i: "i < n" "idx + i < length (coeffs jac)" using lenp lenj c by simp_all
    then have "length (coeffs jac ! (idx + i)) = P" using rowj by simp
    then show "map2 (\<lambda>new old. new @ drop P old) (coeffs part)
                    (take n (drop idx (coeffs jac))) ! i = coeffs part ! i"
      using i lenp lenj c by simp
  qed
  then show "coeffs jac1 = take idx (coeffs jac) @ coeffs part @ drop (idx + n) (coeffs jac)"
    using j by simp
  then show "wellFormed jac1"
    using j lenp lenj c rowj rowp assms(3)
    by (auto simp: wellFormed_def list_all_iff dest: in_set_takeD in_set_dropD)
  show "rows jac1 = rows jac" "cols jac1 = cols jac" using j by simp_all
  show "idx + n \<le> rows jac" "rows part = n" "cols part = P" using c by simp_all
qed

lemma splice_take:
  assumes "i + length x \<le> length v"
  shows "take (i + length x) (take i v @ x @ drop (i + length x) v) = take i v @ x"
  using assms by simp

lemma splice_drop:
  assumes "i + length x \<le> length v" "i + length x \<le> k"
  shows "drop k (take i v @ x @ drop (i + length x) v) = drop k v"
  using assms by (simp add: ac_simps)

lemma splice_length:
  assumes "i + length x \<le> length v"
  shows "length (take i v @ x @ drop (i + length x) v) = length v"
  using assms by simp

lemma residualsPerLinkEnds_Inr:
  assumes "residualsPerLinkEnds t P p odm (res, jac, idx) = (Inr (res', jac', idx'), odm')"
    and "wellFormed jac" and "cols jac = P" and "managersWellFormed odm"
    and "idx \<le> length res" and "idx \<le> rows jac"
  shows "odm' = odm
    \<and> idx' = idx + sum_list (map (\<lambda>g. length (fst (snd g))) p)
    \<and> idx' \<le> length res \<and> idx' \<le> rows jac
    \<and> (\<forall>g \<in> set p. groupComputed odm P (t, g))
    \<and> res' = take idx res @ concat (map (\<lambda>g. groupResiduals odm (t, g)) p) @ drop idx' res
    \<and> coeffs jac' = take idx (coeffs jac) @ concat (map (\<lambda>g. groupPartials odm (t, g)) p)
                      @ drop idx' (coeffs jac)
    \<and> wellFormed jac' \<and> cols jac' = P \<and> rows jac' = rows jac \<and> length res' = length res"
  using assms
proof (induction p arbitrary: res jac idx)
  case Nil
  then show ?case by simp
next
  case (Cons g rest)
  obtain l ov simulationInputTime ref where g: "g = (l, ov, simulationInputTime, ref)" by (cases g) auto
  from Cons.prems(1)[unfolded g]
  obtain mgr comp part diff res1 jac1 where s:
    "observationManagers odm t = Some (Some mgr)"
    "mgr simulationInputTime l ref (dynamicalModel odm) = Inr (comp, part)"
    "vector_minus ov comp = Inr diff"
    "setSegment res idx (length ov) diff = Inr res1"
    "setBlock jac idx (length ov) P part = Inr jac1"
    "residualsPerLinkEnds t P rest odm (res1, jac1, idx + length ov) = (Inr (res', jac', idx'), odm')"
    by (rule residualsPerLinkEnds_Cons_Inr)
  have wfp: "wellFormed part" using Cons.prems(4) s(1,2) unfolding managersWellFormed_def by blast
  have cf: "computedFor odm (t, l, ov, simulationInputTime, ref) = Inr (comp, part)"
    by (simp add: computedFor_def s(1,2))
  have diff: "diff = map2 double_sub ov comp" "length comp = length ov"
    using s(3) by (auto simp: vector_minus_def cwise_def split: if_splits)
  then have ldiff: "length diff = length ov" by simp
  have res1: "res1 = take idx res @ diff @ drop (idx + length diff) res"
      "idx + length diff \<le> length res"
    using s(4) ldiff by (auto simp: setSegment_def split: if_splits)
  note blk = setBlock_rows[OF s(5) Cons.prems(2,3) wfp]
  have lpart: "length (coeffs part) = length ov" using wfp blk(6) by (simp add: wellFormed_def)
  have jac1: "coeffs jac1 = take idx (coeffs jac) @ coeffs part
                @ drop (idx + length (coeffs part)) (coeffs jac)"
      "idx + length (coeffs part) \<le> length (coeffs jac)"
    using blk(1,5) lpart Cons.prems(2) by (simp_all add: wellFormed_def)
  have l1: "length res1 = length res" using splice_length[OF res1(2)] res1(1) by simp
  have ih: "odm' = odm
    \<and> idx' = idx + length ov + sum_list (map (\<lambda>g. length (fst (snd g))) rest)
    \<and> idx' \<le> length res1 \<and> idx' \<le> rows jac1
    \<and> (\<forall>g \<in> set rest. groupComputed odm P (t, g))
    \<and> res' = take (idx + length ov) res1 @ concat (map (\<lambda>g. groupResiduals odm (t, g)) rest)
              @ drop idx' res1
    \<and> coeffs jac' = take (idx + length ov) (coeffs jac1)
                      @ concat (map (\<lambda>g. groupPartials odm (t, g)) rest)
                      @ drop idx' (coeffs jac1)
    \<and> wellFormed jac' \<and> cols jac' = P \<and> rows jac' = rows jac1 \<and> length res' = length res1"
    using blk(2,3,4,5) Cons.prems(3,4) l1 res1(2) ldiff
    by (intro Cons.IH[OF s(6)]) simp_all
  then have idx': "idx' = idx + length ov + sum_list (map (\<lambda>g. length (fst (snd g))) rest)"
    by simp
  have k1: "idx + length diff \<le> idx'" "idx + length (coeffs part) \<le> idx'"
    using idx' ldiff lpart by simp_all
  have t1: "take (idx + length ov) res1 = take idx res @ diff"
    using splice_take[OF res1(2)] res1(1) ldiff by simp
  have d1: "drop idx' res1 = drop idx' res"
    using splice_drop[OF res1(2) k1(1)] res1(1) by simp
  have t2: "take (idx + length ov) (coeffs jac1) = take idx (coeffs jac) @ coeffs part"
    using splice_take[OF jac1(2)] jac1(1) lpart by simp
  have d2: "drop idx' (coeffs jac1) = drop idx' (coeffs jac)"
    using splice_drop[OF jac1(2) k1(2)] jac1(1) by simp
  have gr: "groupResiduals odm (t, g) = diff"
    unfolding g by (simp add: groupResiduals_def cf diff)
  have gp: "groupPartials odm (t, g) = coeffs part"
    unfolding g by (simp add: groupPartials_def cf)
  have gc: "groupComputed odm P (t, g)"
    unfolding g using blk(6,7) diff(2) by (simp add: groupComputed_def cf)
  have c1: "odm' = odm" using ih by blast
  have c2: "idx' = idx + sum_list (map (\<lambda>g. length (fst (snd g))) (g # rest))"
    using idx' by (simp add: g)
  have "\<forall>g \<in> set rest. groupComputed odm P (t, g)" using ih by blast
  then have c3: "\<forall>g \<in> set (g # rest). groupComputed odm P (t, g)" using gc by simp
  have "res' = take (idx + length ov) res1 @ concat (map (\<lambda>g. groupResiduals odm (t, g)) rest)
              @ drop idx' res1" using ih by blast
  then have c4: "res' = take idx res @ concat (map (\<lambda>g. groupResiduals odm (t, g)) (g # rest))
              @ drop idx' res"
    by (simp add: t1 d1 gr)
  have "coeffs jac' = take (idx + length ov) (coeffs jac1)
                      @ concat (map (\<lambda>g. groupPartials odm (t, g)) rest)
                      @ drop idx' (coeffs jac1)" using ih by blast
  then have c5: "coeffs jac' = take idx (coeffs jac)
                      @ concat (map (\<lambda>g. groupPartials odm (t, g)) (g # rest))
                      @ drop idx' (coeffs jac)"
    by (simp add: t2 d2 gp)
  have c6: "wellFormed jac'" "cols jac' = P" using ih by blast+
  have "rows jac' = rows jac1" using ih by blast
  then have c7: "rows jac' = rows jac" using blk(3) by simp
  have "length res' = length res1" using ih by blast
  then have c8: "length res' = length res" using l1 by simp
  have "idx' \<le> length res1" "idx' \<le> rows jac1" using ih by blast+
  then have c9: "idx' \<le> length res" "idx' \<le> rows jac" using l1 blk(3) by simp_all
  show ?case using c1 c2 c3 c4 c5 c6 c7 c8 c9 by blast
qed

lemma groupResiduals_length:
  "groupComputed odm P g \<Longrightarrow> length (groupResiduals odm g) = length (fst (snd (snd g)))"
  by (auto simp: groupComputed_def groupResiduals_def split: sum.splits)

lemma groupPartials_length:
  assumes "groupComputed odm P g" "managersWellFormed odm"
  shows "length (groupPartials odm g) = length (fst (snd (snd g)))"
proof -
  obtain t l ov simulationInputTime ref where g: "g = (t, l, ov, simulationInputTime, ref)" by (cases g) auto
  from assms(1) obtain comp part where c: "computedFor odm g = Inr (comp, part)"
      "rows part = length (fst (snd (snd g)))"
    by (auto simp: groupComputed_def split: sum.splits)
  then have "wellFormed part"
    using assms(2) unfolding managersWellFormed_def g computedFor_def
    by (auto split: option.splits)
  then show ?thesis using c by (simp add: groupPartials_def wellFormed_def)
qed

lemma length_concat_groups:
  assumes "\<forall>g \<in> set gs. length (f g) = n g"
  shows "length (concat (map f gs)) = sum_list (map n gs)"
  using assms by (induction gs) simp_all

lemma map_flatten_Cons:
  "map f (flatten ((t, p) # rest)) = map (\<lambda>g. f (t, g)) p @ map f (flatten rest)"
  by (simp add: comp_def case_prod_unfold)

lemma residualsPerObservable_Inr:
  assumes "residualsPerObservable P obs odm (res, jac, idx) = (Inr (res', jac', idx'), odm')"
    and "wellFormed jac" and "cols jac = P" and "managersWellFormed odm"
    and "idx \<le> length res" and "idx \<le> rows jac"
  shows "odm' = odm
    \<and> idx' = idx + sum_list (map (\<lambda>g. length (fst (snd (snd g)))) (flatten obs))
    \<and> idx' \<le> length res \<and> idx' \<le> rows jac
    \<and> (\<forall>g \<in> set (flatten obs). groupComputed odm P g)
    \<and> res' = take idx res @ concat (map (groupResiduals odm) (flatten obs)) @ drop idx' res
    \<and> coeffs jac' = take idx (coeffs jac) @ concat (map (groupPartials odm) (flatten obs))
                      @ drop idx' (coeffs jac)
    \<and> wellFormed jac' \<and> cols jac' = P \<and> rows jac' = rows jac \<and> length res' = length res"
  using assms
proof (induction obs arbitrary: res jac idx odm')
  case Nil
  then show ?case by simp
next
  case (Cons tp rest)
  obtain t p where tp: "tp = (t, p)" by (cases tp) auto
  from Cons.prems(1) obtain res1 jac1 idx1 odm1 where
    inner: "residualsPerLinkEnds t P p odm (res, jac, idx) = (Inr (res1, jac1, idx1), odm1)"
    and outer: "residualsPerObservable P rest odm1 (res1, jac1, idx1)
                  = (Inr (res', jac', idx'), odm')"
    by (auto simp: tp split: prod.splits sum.splits)
  note i = residualsPerLinkEnds_Inr[OF inner Cons.prems(2-6)]
  let ?n1 = "sum_list (map (\<lambda>g. length (fst (snd g))) p)"
  let ?C1 = "concat (map (\<lambda>g. groupResiduals odm (t, g)) p)"
  let ?D1 = "concat (map (\<lambda>g. groupPartials odm (t, g)) p)"
  have odm1: "odm1 = odm" using i by blast
  have idx1: "idx1 = idx + ?n1" "idx1 \<le> length res" "idx1 \<le> rows jac" using i by blast+
  have gc1: "\<forall>g \<in> set p. groupComputed odm P (t, g)" using i by blast
  have res1: "res1 = take idx res @ ?C1 @ drop idx1 res" using i by blast
  have jac1: "coeffs jac1 = take idx (coeffs jac) @ ?D1 @ drop idx1 (coeffs jac)"
    using i by blast
  have wf1: "wellFormed jac1" "cols jac1 = P" "rows jac1 = rows jac" "length res1 = length res"
    using i by blast+
  have lC1: "length ?C1 = ?n1"
    using gc1 by (intro length_concat_groups) (simp add: groupResiduals_length[of _ P])
  have lD1: "length ?D1 = ?n1"
    using gc1 Cons.prems(4)
    by (intro length_concat_groups) (simp add: groupPartials_length[of _ P])
  have lj: "length (coeffs jac) = rows jac" using Cons.prems(2) by (simp add: wellFormed_def)
  have ih: "odm' = odm
    \<and> idx' = idx1 + sum_list (map (\<lambda>g. length (fst (snd (snd g)))) (flatten rest))
    \<and> idx' \<le> length res1 \<and> idx' \<le> rows jac1
    \<and> (\<forall>g \<in> set (flatten rest). groupComputed odm P g)
    \<and> res' = take idx1 res1 @ concat (map (groupResiduals odm) (flatten rest)) @ drop idx' res1
    \<and> coeffs jac' = take idx1 (coeffs jac1) @ concat (map (groupPartials odm) (flatten rest))
                      @ drop idx' (coeffs jac1)
    \<and> wellFormed jac' \<and> cols jac' = P \<and> rows jac' = rows jac1 \<and> length res' = length res1"
    using wf1 idx1 Cons.prems(4)
    by (intro Cons.IH[OF outer[unfolded odm1]]) simp_all
  have idx': "idx' = idx1 + sum_list (map (\<lambda>g. length (fst (snd (snd g)))) (flatten rest))"
    using ih by blast
  have b1: "idx + length ?C1 \<le> length res" "idx + length ?C1 \<le> idx'"
    using idx1 idx' lC1 by simp_all
  have b2: "idx + length ?D1 \<le> length (coeffs jac)" "idx + length ?D1 \<le> idx'"
    using idx1 idx' lD1 lj by simp_all
  have r1: "res1 = take idx res @ ?C1 @ drop (idx + length ?C1) res"
    using res1 idx1(1) lC1 by simp
  have j1: "coeffs jac1 = take idx (coeffs jac) @ ?D1 @ drop (idx + length ?D1) (coeffs jac)"
    using jac1 idx1(1) lD1 by simp
  have t1: "take idx1 res1 = take idx res @ ?C1"
    using splice_take[OF b1(1)] r1 idx1(1) lC1 by simp
  have d1: "drop idx' res1 = drop idx' res"
    using splice_drop[OF b1] r1 by simp
  have t2: "take idx1 (coeffs jac1) = take idx (coeffs jac) @ ?D1"
    using splice_take[OF b2(1)] j1 idx1(1) lD1 by simp
  have d2: "drop idx' (coeffs jac1) = drop idx' (coeffs jac)"
    using splice_drop[OF b2] j1 by simp
  have c1: "odm' = odm" using ih by blast
  have c2: "idx' = idx + sum_list (map (\<lambda>g. length (fst (snd (snd g)))) (flatten (tp # rest)))"
    using idx' idx1(1) by (simp add: tp comp_def case_prod_unfold)
  have "idx' \<le> length res1" "idx' \<le> rows jac1" using ih by blast+
  then have c3: "idx' \<le> length res" "idx' \<le> rows jac" using wf1 by simp_all
  have "\<forall>g \<in> set (flatten rest). groupComputed odm P g" using ih by blast
  then have c4: "\<forall>g \<in> set (flatten (tp # rest)). groupComputed odm P g"
    using gc1 by (auto simp: tp)
  have "res' = take idx1 res1 @ concat (map (groupResiduals odm) (flatten rest)) @ drop idx' res1"
    using ih by blast
  then have c5: "res' = take idx res @ concat (map (groupResiduals odm) (flatten (tp # rest)))
                   @ drop idx' res"
    unfolding tp map_flatten_Cons by (simp add: t1 d1)
  have "coeffs jac' = take idx1 (coeffs jac1) @ concat (map (groupPartials odm) (flatten rest))
                      @ drop idx' (coeffs jac1)"
    using ih by blast
  then have c6: "coeffs jac' = take idx (coeffs jac)
                   @ concat (map (groupPartials odm) (flatten (tp # rest)))
                   @ drop idx' (coeffs jac)"
    unfolding tp map_flatten_Cons by (simp add: t2 d2)
  have c7: "wellFormed jac'" "cols jac' = P" using ih by blast+
  have "rows jac' = rows jac1" "length res' = length res1" using ih by blast+
  then have c8: "rows jac' = rows jac" "length res' = length res" using wf1 by simp_all
  show ?case using c1 c2 c3 c4 c5 c6 c7 c8 by blast
qed

lemma countObservationsPerLinkEnds_sum:
  "countObservationsPerLinkEnds p n = n + sum_list (map (\<lambda>g. length (fst (snd g))) p)"
  by (induction p n rule: countObservationsPerLinkEnds.induct) simp_all

lemma countObservations_sum:
  "snd (countObservations obs (m, n))
     = n + sum_list (map (\<lambda>g. length (fst (snd (snd g)))) (flatten obs))"
proof (induction obs arbitrary: m n)
  case Nil
  then show ?case by simp
next
  case (Cons tp rest)
  obtain t p where tp: "tp = (t, p)" by (cases tp) auto
  show ?case
    unfolding tp
    by (simp add: Let_def Cons.IH countObservationsPerLinkEnds_sum comp_def case_prod_unfold)
qed

lemma totalNumberOfObservations_sum:
  "snd (getNumberOfObservationsPerObservable obs)
     = sum_list (map (\<lambda>g. length (fst (snd (snd g)))) (flatten obs))"
  by (simp add: getNumberOfObservationsPerObservable_def countObservations_sum)

lemma wellFormed_Zero: "wellFormed (MatrixXd_Zero r c)"
  by (simp add: wellFormed_def MatrixXd_Zero_def list_all_iff)

lemma calculateObservationMatrixAndResiduals_Inr:
  assumes "calculateObservationMatrixAndResiduals odm obs P
             (snd (getNumberOfObservationsPerObservable obs)) = (Inr (res, jac), odm')"
    and "managersWellFormed odm"
  shows "odm' = odm"
    and "res = concat (map (groupResiduals odm) (flatten obs))"
    and "coeffs jac = concat (map (groupPartials odm) (flatten obs))"
    and "\<forall>g \<in> set (flatten obs). groupComputed odm P g"
    and "length res = snd (getNumberOfObservationsPerObservable obs)"
    and "rows jac = snd (getNumberOfObservationsPerObservable obs)"
    and "cols jac = P" and "wellFormed jac"
proof -
  let ?n = "snd (getNumberOfObservationsPerObservable obs)"
  from assms(1) obtain idx' where run:
    "residualsPerObservable P obs odm (VectorXd_Zero ?n, MatrixXd_Zero ?n P, 0)
       = (Inr (res, jac, idx'), odm')"
    by (auto simp: calculateObservationMatrixAndResiduals_def Let_def
             split: prod.splits sum.splits)
  have z: "cols (MatrixXd_Zero ?n P) = P" "rows (MatrixXd_Zero ?n P) = ?n"
      "length (VectorXd_Zero ?n) = ?n" "length (coeffs (MatrixXd_Zero ?n P)) = ?n"
    by (simp_all add: MatrixXd_Zero_def VectorXd_Zero_def)
  note r = residualsPerObservable_Inr[OF run wellFormed_Zero z(1) assms(2) le0 le0]
  have "idx' = 0 + sum_list (map (\<lambda>g. length (fst (snd (snd g)))) (flatten obs))"
    using r by blast
  then have idx': "idx' = ?n" by (simp add: totalNumberOfObservations_sum)
  show "odm' = odm" using r by blast
  have "res = take 0 (VectorXd_Zero ?n) @ concat (map (groupResiduals odm) (flatten obs))
          @ drop idx' (VectorXd_Zero ?n)" using r by blast
  then show "res = concat (map (groupResiduals odm) (flatten obs))"
    using z(3) by (simp add: idx')
  have "coeffs jac = take 0 (coeffs (MatrixXd_Zero ?n P))
          @ concat (map (groupPartials odm) (flatten obs))
          @ drop idx' (coeffs (MatrixXd_Zero ?n P))" using r by blast
  then show "coeffs jac = concat (map (groupPartials odm) (flatten obs))"
    using z(4) by (simp add: idx')
  show "\<forall>g \<in> set (flatten obs). groupComputed odm P g" using r by blast
  have "length res = length (VectorXd_Zero ?n)" using r by blast
  then show "length res = ?n" by (simp only: z(3))
  have "rows jac = rows (MatrixXd_Zero ?n P)" using r by blast
  then show "rows jac = ?n" by (simp only: z(2))
  show "cols jac = P" "wellFormed jac" using r by blast+
qed

lemma std_map_keys_eq:
  assumes "std_map a" "std_map b" "fst ` set a = fst ` set b"
  shows "map fst a = map fst b"
proof -
  have "sorted (map fst a)" "distinct (map fst a)" "sorted (map fst b)" "distinct (map fst b)"
    using assms(1,2) by (simp_all add: std_map_def strict_sorted_iff)
  moreover have "set (map fst a) = set (map fst b)" using assms(3) by simp
  ultimately show ?thesis by (rule sorted_distinct_set_unique)
qed

lemma std_map_list_all2:
  assumes "std_map a" "std_map b" "fst ` set a = fst ` set b"
    and "\<And>k x y. (k, x) \<in> set a \<Longrightarrow> (k, y) \<in> set b \<Longrightarrow> Q x y"
  shows "list_all2 (\<lambda>(k, x) (k', y). k = k' \<and> Q x y) a b"
proof -
  have keys: "map fst a = map fst b" using assms(1-3) by (rule std_map_keys_eq)
  then have len: "length a = length b" by (metis length_map)
  show ?thesis
  proof (rule list_all2_all_nthI[OF len])
    fix i assume i: "i < length a"
    then have "fst (a ! i) = fst (b ! i)" using keys len by (metis nth_map)
    moreover have "a ! i \<in> set a" "b ! i \<in> set b" using i len by simp_all
    ultimately show "(case a ! i of (k, x) \<Rightarrow> \<lambda>(k', y). k = k' \<and> Q x y) (b ! i)"
      using assms(4) by (cases "a ! i"; cases "b ! i") auto
  qed
qed

lemma list_all2_flatten:
  assumes "list_all2 (\<lambda>(t, p) (t', q). t = t' \<and> list_all2 (\<lambda>(l, x) (l', y). l = l' \<and> Q x y) p q)
             a b"
  shows "list_all2 (\<lambda>(t, l, x) (t', l', y). t = t' \<and> l = l' \<and> Q x y) (flatten a) (flatten b)"
  using assms
proof (induction a b rule: list_all2_induct)
  case Nil
  then show ?case by simp
next
  case (Cons x xs y ys)
  obtain t p where x: "x = (t, p)" by (cases x) auto
  obtain t' q where y: "y = (t', q)" by (cases y) auto
  have "t = t'" and pq: "list_all2 (\<lambda>(l, x) (l', y). l = l' \<and> Q x y) p q"
    using Cons.hyps(1) by (simp_all add: x y)
  have "list_all2 (\<lambda>(t, l, x) (t', l', y). t = t' \<and> l = l' \<and> Q x y)
          (map (\<lambda>(l, d). (t, l, d)) p) (map (\<lambda>(l, d). (t, l, d)) q)"
    using pq by (induction p q rule: list_all2_induct) auto
  then show ?case
    using Cons.IH \<open>t = t'\<close> by (simp add: x y list_all2_appendI)
qed

lemma mirrors_flatten:
  assumes "nested_std_map w" "nested_std_map obs" "mirrors w obs"
  shows "list_all2 (\<lambda>(t, l, x) (t', l', y). t = t' \<and> l = l' \<and> length x = length (fst y))
           (flatten w) (flatten obs)"
proof (rule list_all2_flatten, rule std_map_list_all2)
  show "std_map w" "std_map obs" using assms(1,2) by (simp_all add: nested_std_map_def)
  show "fst ` set w = fst ` set obs" using assms(3) by (simp add: mirrors_def)
next
  fix t p q assume pq: "(t, p) \<in> set w" "(t, q) \<in> set obs"
  have sp: "std_map p" "std_map q"
    using pq assms(1,2) by (auto simp: nested_std_map_def list_all_iff)
  have m: "\<forall>(observable, weightsPerLinkEnds) \<in> set w.
          \<forall>(observable', dataPerLinkEnds) \<in> set obs.
            observable = observable' \<longrightarrow>
              fst ` set weightsPerLinkEnds = fst ` set dataPerLinkEnds
              \<and> (\<forall>(linkEnds, w) \<in> set weightsPerLinkEnds.
                  \<forall>(linkEnds', d) \<in> set dataPerLinkEnds.
                    linkEnds = linkEnds' \<longrightarrow> length w = length (fst d))"
    using assms(3) by (simp add: mirrors_def)
  from bspec[OF m pq(1)]
  have "\<forall>(observable', dataPerLinkEnds) \<in> set obs.
            t = observable' \<longrightarrow>
              fst ` set p = fst ` set dataPerLinkEnds
              \<and> (\<forall>(linkEnds, w) \<in> set p.
                  \<forall>(linkEnds', d) \<in> set dataPerLinkEnds.
                    linkEnds = linkEnds' \<longrightarrow> length w = length (fst d))"
    by simp
  from bspec[OF this pq(2)]
  have k: "fst ` set p = fst ` set q"
    "\<forall>(linkEnds, w) \<in> set p. \<forall>(linkEnds', d) \<in> set q.
        linkEnds = linkEnds' \<longrightarrow> length w = length (fst d)"
    by simp_all
  have keys: "fst ` set p = fst ` set q" by (rule k(1))
  have sizes: "length x = length (fst y)" if "(l, x) \<in> set p" "(l, y) \<in> set q" for l x y
  proof -
    from bspec[OF k(2) that(1)]
    have "\<forall>(linkEnds', d) \<in> set q. l = linkEnds' \<longrightarrow> length x = length (fst d)"
      by simp
    from bspec[OF this that(2)] show ?thesis by simp
  qed
  show "list_all2 (\<lambda>(l, x) (l', y). l = l' \<and> length x = length (fst y)) p q"
    using sp keys sizes by (rule std_map_list_all2)
qed

lemma concat_as_map:
  assumes "\<forall>g \<in> set gs. length (f g) = n g"
  shows "concat (map f gs)
           = map (\<lambda>(g, j). f g ! j) (concat (map (\<lambda>g. map (Pair g) [0 ..< n g]) gs))"
  using assms
proof (induction gs)
  case Nil
  then show ?case by simp
next
  case (Cons g gs)
  have "f g = map (nth (f g)) [0 ..< length (f g)]" by (simp add: map_nth)
  then have "f g = map (\<lambda>(g, j). f g ! j) (map (Pair g) [0 ..< n g])"
    using Cons.prems by (simp add: comp_def)
  then show ?case using Cons by simp
qed

lemma flatten_lookup:
  assumes "(t, l, d) \<in> set (flatten m)" "nested_std_map m"
  shows "\<exists>perLinkEnds. map_of m t = Some perLinkEnds \<and> map_of perLinkEnds l = Some d"
proof -
  from assms(1) obtain p where p: "(t, p) \<in> set m" "(l, d) \<in> set p"
    by (auto simp: flatten_def)
  have "distinct (map fst m)" using assms(2)
    by (simp add: nested_std_map_def std_map_def strict_sorted_iff)
  then have 1: "map_of m t = Some p" using p(1) by simp
  have "std_map p" using assms(2) p(1) by (auto simp: nested_std_map_def list_all_iff)
  then have "distinct (map fst p)" by (simp add: std_map_def strict_sorted_iff)
  then have "map_of p l = Some d" using p(2) by simp
  then show ?thesis using 1 by blast
qed

lemma groupComputed_unfold:
  assumes "groupComputed odm P (t, l, ov, simulationInputTime, ref)"
  obtains mgr comp part where
    "observationManagers odm t = Some (Some mgr)"
    "mgr simulationInputTime l ref (dynamicalModel odm) = Inr (comp, part)"
    "length comp = length ov"
    "groupResiduals odm (t, l, ov, simulationInputTime, ref) = map2 double_sub ov comp"
    "groupPartials odm (t, l, ov, simulationInputTime, ref) = coeffs part"
  using assms
  by (auto simp: groupComputed_def groupResiduals_def groupPartials_def computedFor_def
           split: sum.splits option.splits)

lemma concat_tags_as_map:
  "concat (map (\<lambda>g. map (tag g) [0 ..< n g]) gs)
     = map (\<lambda>(g, j). tag g j) (concat (map (\<lambda>g. map (Pair g) [0 ..< n g]) gs))"
  by (induction gs) (simp_all add: comp_def)

text \<open>
  C1. For weights that mirror the keys and the sizes of the observations, the assembled
  weight vector has as many entries as there are observations, as have the residual
  vector and the matrix of partials, and for every index \<open>i\<close> the entries
  \<open>i\<close> of the three belong to the same observable type, link ends and
  observation index: the triple at position \<open>i\<close> of the stacking order, which is
  the same for the weights and for the observations. The residual is the observation
  minus the value the manager of that type computed, and the row of partials is the row
  the manager returned for that observation.
\<close>

theorem weights_follow_residual_order:
  assumes "nested_std_map weightsData" and "nested_std_map obs"
    and "mirrors weightsData obs"
    and "managersWellFormed odm"
    and "calculateObservationMatrixAndResiduals odm obs P
           (snd (getNumberOfObservationsPerObservable obs)) = (Inr (res, jac), odm')"
  shows "\<exists>weights. getConcatenatedWeightsVector weightsData = Inr weights
     \<and> length weights = snd (getNumberOfObservationsPerObservable obs)
     \<and> length res = snd (getNumberOfObservationsPerObservable obs)
     \<and> rows jac = snd (getNumberOfObservationsPerObservable obs)
     \<and> length (coeffs jac) = snd (getNumberOfObservationsPerObservable obs)
     \<and> stackingOrder length weightsData = stackingOrder (\<lambda>d. length (fst d)) obs
     \<and> length (stackingOrder (\<lambda>d. length (fst d)) obs)
           = snd (getNumberOfObservationsPerObservable obs)
     \<and> (\<forall>i < snd (getNumberOfObservationsPerObservable obs).
           case stackingOrder (\<lambda>d. length (fst d)) obs ! i of
             (observable, linkEnds, j) \<Rightarrow>
               \<exists>weightsPerLinkEnds w dataPerLinkEnds observations simulationInputTime
                  referenceLinkEnd manager computed computedPartials.
                 map_of weightsData observable = Some weightsPerLinkEnds
                 \<and> map_of weightsPerLinkEnds linkEnds = Some w
                 \<and> j < length w \<and> weights ! i = w ! j
                 \<and> map_of obs observable = Some dataPerLinkEnds
                 \<and> map_of dataPerLinkEnds linkEnds
                     = Some (observations, simulationInputTime, referenceLinkEnd)
                 \<and> j < length observations
                 \<and> observationManagers odm observable = Some (Some manager)
                 \<and> manager simulationInputTime linkEnds referenceLinkEnd (dynamicalModel odm)
                     = Inr (computed, computedPartials)
                 \<and> res ! i = double_sub (observations ! j) (computed ! j)
                 \<and> coeffs jac ! i = coeffs computedPartials ! j)"
proof -
  let ?total = "snd (getNumberOfObservationsPerObservable obs)"
  define gw where "gw = flatten weightsData"
  define go where "go = flatten obs"
  define gs where "gs = zip gw go"
  define n :: "(ObservableType \<times> 'a \<times> VectorXd)
                 \<times> (ObservableType \<times> 'a \<times> VectorXd \<times> double list \<times> LinkEndType) \<Rightarrow> nat"
    where "n = (\<lambda>g. length (fst (snd (snd (snd g)))))"
  define Z where "Z = concat (map (\<lambda>g. map (Pair g) [0 ..< n g]) gs)"
  note calc = calculateObservationMatrixAndResiduals_Inr[OF assms(5,4)]
  have al: "list_all2 (\<lambda>(t, l, x) (t', l', y). t = t' \<and> l = l' \<and> length x = length (fst y)) gw go"
    unfolding gw_def go_def using assms(1-3) by (rule mirrors_flatten)
  then have len: "length gw = length go" by (rule list_all2_lengthD)
  have fst_gs: "map fst gs = gw" and snd_gs: "map snd gs = go"
    using len by (simp_all add: gs_def)
  have in_gs: "fst g \<in> set gw \<and> snd g \<in> set go
      \<and> fst (fst g) = fst (snd g) \<and> fst (snd (fst g)) = fst (snd (snd g))
      \<and> length (snd (snd (fst g))) = n g" if "g \<in> set gs" for g
  proof -
    obtain a b where g: "g = (a, b)" by (cases g) auto
    have ab: "(a, b) \<in> set (zip gw go)" using that by (simp add: g gs_def)
    then have "a \<in> set gw" "b \<in> set go" by (auto dest: set_zip_leftD set_zip_rightD)
    moreover have "(\<lambda>(t, l, x) (t', l', y). t = t' \<and> l = l' \<and> length x = length (fst y)) a b"
      using al ab by (auto simp: list_all2_iff)
    ultimately show ?thesis by (auto simp: g n_def split: prod.splits)
  qed
  have gc: "groupComputed odm P (snd g)" if "g \<in> set gs" for g
    using calc(4) in_gs[OF that] by (simp add: go_def)
  \<comment> \<open>the four stacked lists, each as a map over the same list of positions\<close>
  have W: "getConcatenatedWeightsVector weightsData
             = Inr (map (\<lambda>(g, j). snd (snd (fst g)) ! j) Z)"
  proof -
    have "concat (map (\<lambda>(t, l, d). d) gw) = concat (map (\<lambda>g. snd (snd (fst g))) gs)"
      by (simp add: fst_gs[symmetric] comp_def case_prod_unfold)
    also have "\<dots> = map (\<lambda>(g, j). snd (snd (fst g)) ! j) Z"
      unfolding Z_def using in_gs by (intro concat_as_map) simp
    finally show ?thesis
      by (simp add: getConcatenatedWeightsVector_concat gw_def)
  qed
  have R: "res = map (\<lambda>(g, j). groupResiduals odm (snd g) ! j) Z"
  proof -
    have "res = concat (map (\<lambda>g. groupResiduals odm (snd g)) gs)"
      by (simp add: calc(2) go_def[symmetric] snd_gs[symmetric] comp_def)
    also have "\<dots> = map (\<lambda>(g, j). groupResiduals odm (snd g) ! j) Z"
      unfolding Z_def using gc
      by (intro concat_as_map) (simp add: groupResiduals_length[of _ P] n_def)
    finally show ?thesis .
  qed
  have J: "coeffs jac = map (\<lambda>(g, j). groupPartials odm (snd g) ! j) Z"
  proof -
    have "coeffs jac = concat (map (\<lambda>g. groupPartials odm (snd g)) gs)"
      by (simp add: calc(3) go_def[symmetric] snd_gs[symmetric] comp_def)
    also have "\<dots> = map (\<lambda>(g, j). groupPartials odm (snd g) ! j) Z"
      unfolding Z_def using gc assms(4)
      by (intro concat_as_map) (simp add: groupPartials_length[of _ P] n_def)
    finally show ?thesis .
  qed
  have S: "stackingOrder (\<lambda>d. length (fst d)) obs
             = map (\<lambda>(g, j). (fst (snd g), fst (snd (snd g)), j)) Z"
  proof -
    have "stackingOrder (\<lambda>d. length (fst d)) obs
        = concat (map (\<lambda>g. map (\<lambda>j. (fst (snd g), fst (snd (snd g)), j)) [0 ..< n g]) gs)"
      by (simp add: stackingOrder_def go_def[symmetric] snd_gs[symmetric] comp_def
            case_prod_unfold n_def)
    also have "\<dots> = map (\<lambda>(g, j). (fst (snd g), fst (snd (snd g)), j)) Z"
      unfolding Z_def by (rule concat_tags_as_map)
    finally show ?thesis .
  qed
  have SW: "stackingOrder length weightsData
             = map (\<lambda>(g, j). (fst (fst g), fst (snd (fst g)), j)) Z"
  proof -
    have "stackingOrder length weightsData
        = concat (map (\<lambda>g. map (\<lambda>j. (fst (fst g), fst (snd (fst g)), j))
                              [0 ..< length (snd (snd (fst g)))]) gs)"
      by (simp add: stackingOrder_def gw_def[symmetric] fst_gs[symmetric] comp_def
            case_prod_unfold)
    also have "\<dots> = concat (map (\<lambda>g. map (\<lambda>j. (fst (fst g), fst (snd (fst g)), j))
                              [0 ..< n g]) gs)"
      using in_gs by (intro arg_cong[where f = concat] map_cong) simp_all
    also have "\<dots> = map (\<lambda>(g, j). (fst (fst g), fst (snd (fst g)), j)) Z"
      unfolding Z_def by (rule concat_tags_as_map)
    finally show ?thesis .
  qed
  have SS: "stackingOrder length weightsData = stackingOrder (\<lambda>d. length (fst d)) obs"
    unfolding S SW using in_gs by (intro map_cong) (auto simp: Z_def)
  have lenZ: "length Z = ?total"
    using calc(5) by (simp add: R)
  have main: "case stackingOrder (\<lambda>d. length (fst d)) obs ! i of
             (observable, linkEnds, j) \<Rightarrow>
               \<exists>weightsPerLinkEnds w dataPerLinkEnds observations simulationInputTime
                  referenceLinkEnd manager computed computedPartials.
                 map_of weightsData observable = Some weightsPerLinkEnds
                 \<and> map_of weightsPerLinkEnds linkEnds = Some w
                 \<and> j < length w \<and> map (\<lambda>(g, j). snd (snd (fst g)) ! j) Z ! i = w ! j
                 \<and> map_of obs observable = Some dataPerLinkEnds
                 \<and> map_of dataPerLinkEnds linkEnds
                     = Some (observations, simulationInputTime, referenceLinkEnd)
                 \<and> j < length observations
                 \<and> observationManagers odm observable = Some (Some manager)
                 \<and> manager simulationInputTime linkEnds referenceLinkEnd (dynamicalModel odm)
                     = Inr (computed, computedPartials)
                 \<and> res ! i = double_sub (observations ! j) (computed ! j)
                 \<and> coeffs jac ! i = coeffs computedPartials ! j"
    if i: "i < ?total" for i
  proof -
    have iZ: "i < length Z" using i lenZ by simp
    obtain g j where z: "Z ! i = (g, j)" by (cases "Z ! i") auto
    have "(g, j) \<in> set Z" using iZ z by (metis nth_mem)
    then have g: "g \<in> set gs" and j: "j < n g" by (auto simp: Z_def)
    obtain t l w t' l' ov simulationInputTime ref where gg: "g = ((t, l, w), (t', l', ov, simulationInputTime, ref))"
      by (cases g) auto
    have "fst g \<in> set gw" "snd g \<in> set go" using in_gs[OF g] by blast+
    then have mem: "(t, l, w) \<in> set gw" "(t', l', ov, simulationInputTime, ref) \<in> set go"
      by (simp_all add: gg)
    have "fst (fst g) = fst (snd g)" "fst (snd (fst g)) = fst (snd (snd g))"
        "length (snd (snd (fst g))) = n g"
      using in_gs[OF g] by blast+
    then have eq: "t' = t" "l' = l" "length w = length ov" "n g = length ov"
      by (simp_all add: n_def gg)
    have "(t, l, w) \<in> set (flatten weightsData)" using mem(1) by (simp add: gw_def)
    from flatten_lookup[OF this assms(1)] obtain wp where
      wp: "map_of weightsData t = Some wp" "map_of wp l = Some w" by blast
    have "(t, l, ov, simulationInputTime, ref) \<in> set (flatten obs)" using mem(2) by (simp add: go_def eq)
    from flatten_lookup[OF this assms(2)] obtain dp where
      dp: "map_of obs t = Some dp" "map_of dp l = Some (ov, simulationInputTime, ref)" by blast
    have "groupComputed odm P (t, l, ov, simulationInputTime, ref)" using gc[OF g] eq by (simp add: gg)
    then obtain mgr comp part where m:
      "observationManagers odm t = Some (Some mgr)"
      "mgr simulationInputTime l ref (dynamicalModel odm) = Inr (comp, part)"
      "length comp = length ov"
      "groupResiduals odm (t, l, ov, simulationInputTime, ref) = map2 double_sub ov comp"
      "groupPartials odm (t, l, ov, simulationInputTime, ref) = coeffs part"
      by (rule groupComputed_unfold)
    have jl: "j < length ov" using j eq by simp
    have s: "stackingOrder (\<lambda>d. length (fst d)) obs ! i = (t, l, j)"
      using iZ z eq by (simp add: S gg)
    have w: "map (\<lambda>(g, j). snd (snd (fst g)) ! j) Z ! i = w ! j"
      using iZ z by (simp add: gg)
    have r: "res ! i = double_sub (ov ! j) (comp ! j)"
      using iZ z eq m(3,4) jl by (simp add: R gg)
    have p: "coeffs jac ! i = coeffs part ! j"
      using iZ z eq m(5) by (simp add: J gg)
    show ?thesis
      unfolding s using wp dp m(1,2) jl eq(3) w r p by auto
  qed
  have lens: "length (map (\<lambda>(g, j). snd (snd (fst g)) ! j) Z) = ?total"
    "length (coeffs jac) = ?total"
    "length (stackingOrder (\<lambda>d. length (fst d)) obs) = ?total"
    using lenZ by (simp_all add: J S)
  show ?thesis
    using W lens calc(5,6) SS main by blast
qed

lemma example_total: "snd (getNumberOfObservationsPerObservable exampleObservations) = 4"
  by (simp add: getNumberOfObservationsPerObservable_def exampleObservations_def)

lemma example_residuals:
  "calculateObservationMatrixAndResiduals exampleManagerObject exampleObservations 1 4
   = (Inr ([Num 2, Num 3, Num 4, Num 5],
           \<lparr> rows = 4, cols = 1, coeffs = [[Num 1], [Num 1], [Num 2], [Num 3]] \<rparr>),
      exampleManagerObject)"
  by (simp add: calculateObservationMatrixAndResiduals_def exampleObservations_def
        exampleManagerObject_def exampleManager_def observationManagers_subscript_def
        vector_minus_def cwise_def setSegment_def setBlock_def MatrixXd_Zero_def
        VectorXd_Zero_def double_sub_def numeral_eq_Suc)

lemma example_std_maps:
  "nested_std_map exampleObservations" "nested_std_map exampleWeights"
  by (simp_all add: nested_std_map_def std_map_def exampleObservations_def exampleWeights_def)

lemma example_mirrors: "mirrors exampleWeights exampleObservations"
  by (simp add: mirrors_def exampleObservations_def exampleWeights_def)

lemma example_managersWellFormed: "managersWellFormed exampleManagerObject"
  by (auto simp: managersWellFormed_def exampleManagerObject_def exampleManager_def
        wellFormed_def list_all_iff split: if_splits)

theorem weights_follow_residual_order_witness:
  "nested_std_map exampleWeights \<and> nested_std_map exampleObservations
   \<and> mirrors exampleWeights exampleObservations
   \<and> managersWellFormed exampleManagerObject
   \<and> calculateObservationMatrixAndResiduals exampleManagerObject exampleObservations 1
         (snd (getNumberOfObservationsPerObservable exampleObservations))
       = (Inr ([Num 2, Num 3, Num 4, Num 5],
               \<lparr> rows = 4, cols = 1, coeffs = [[Num 1], [Num 1], [Num 2], [Num 3]] \<rparr>),
          exampleManagerObject)
   \<and> (\<exists>weights. getConcatenatedWeightsVector exampleWeights = Inr weights
         \<and> length weights = 4
         \<and> stackingOrder length exampleWeights
             = stackingOrder (\<lambda>d. length (fst d)) exampleObservations
         \<and> length (stackingOrder (\<lambda>d. length (fst d)) exampleObservations) = 4)"
proof -
  have run: "calculateObservationMatrixAndResiduals exampleManagerObject exampleObservations 1
         (snd (getNumberOfObservationsPerObservable exampleObservations))
       = (Inr ([Num 2, Num 3, Num 4, Num 5],
               \<lparr> rows = 4, cols = 1, coeffs = [[Num 1], [Num 1], [Num 2], [Num 3]] \<rparr>),
          exampleManagerObject)"
    by (simp only: example_total example_residuals)
  show ?thesis
    using weights_follow_residual_order
            [OF example_std_maps(2) example_std_maps(1) example_mirrors
                example_managersWellFormed run]
          example_std_maps example_mirrors example_managersWellFormed run
    by (simp only: example_total) blast
qed

text \<open>
  C4. The claim is that a request for an observable type without a registered manager
  raises an error that names the type and leaves the state as it was. The checked lookup
  \<open>getObservationManager\<close> throws such an error. The residual assembler does not use
  it: it subscripts \<open>observationManagers_\<close>, which inserts an empty pointer under the
  missing type, and dereferences that pointer.
\<close>

theorem missing_manager_is_dereferenced:
  assumes "observationManagers odm observable = None"
  shows "getObservationManager odm observable
           = Inl (RuntimeError (''Error when retrieving observation manager of type ''
                    @ to_string observable @ '', manager not found''))
     \<and> calculateObservationMatrixAndResiduals odm
           ((observable, dataPerLinkEnds # rest) # others) parameterVectorSize
           totalObservationSize
         = (Inl NullPointerDereference,
            odm\<lparr> observationManagers := (observationManagers odm)(observable \<mapsto> None) \<rparr>)"
proof -
  obtain l ov tms ref where d: "dataPerLinkEnds = (l, ov, tms, ref)"
    by (cases dataPerLinkEnds) auto
  show ?thesis
    using assms
    by (simp add: getObservationManager_def calculateObservationMatrixAndResiduals_def d
          observationManagers_subscript_def Let_def)
qed

theorem missing_manager_is_dereferenced_witness:
  "observationManagers exampleManagerObject 7 = None
   \<and> getObservationManager exampleManagerObject 7
       = Inl (RuntimeError ''Error when retrieving observation manager of type 7, manager not found'')
   \<and> calculateObservationMatrixAndResiduals exampleManagerObject
         [(7, [(0, ([Num 2], [Num 1], 0))])] 1 1
       = (Inl NullPointerDereference,
          exampleManagerObject\<lparr> observationManagers :=
            (observationManagers exampleManagerObject)(7 \<mapsto> None) \<rparr>)
   \<and> observationManagers
         (snd (calculateObservationMatrixAndResiduals exampleManagerObject
                 [(7, [(0, ([Num 2], [Num 1], 0))])] 1 1)) 7 = Some None"
proof -
  have none: "observationManagers exampleManagerObject 7 = None"
    by (simp add: exampleManagerObject_def)
  show ?thesis
    using missing_manager_is_dereferenced
            [OF none, of "(0, ([Num 2], [Num 1], 0))" "[]" "[]" 1 1] none
    by simp
qed

section \<open>Properties of resetParameterEstimate\<close>

lemma resetParameterEstimate_Inr:
  assumes "resetParameterEstimate env v r odm = (Inr u, odm')"
  shows "currentParameterEstimate odm' = v"
  using assms
  by (auto simp: resetParameterEstimate_def split: prod.splits sum.splits if_splits)

lemma resetParameterEstimate_Inl:
  assumes "resetParameterEstimate env v r odm = (Inl e, odm')"
  shows "currentParameterEstimate odm' = currentParameterEstimate odm"
  using assms
  by (auto simp: resetParameterEstimate_def split: prod.splits sum.splits if_splits)

text \<open>
  C9. After a call of \<open>resetParameterEstimate\<close> that returns, the cached current
  estimate is the vector passed in; a second call with the same vector, with either
  value of the flag, leaves the cached estimate as it is, whether it returns or throws.
\<close>

theorem resetParameterEstimate_idempotent:
  assumes "resetParameterEstimate env v r1 odm = (Inr u, odm1)"
  shows "currentParameterEstimate odm1 = v
         \<and> currentParameterEstimate (snd (resetParameterEstimate env v r2 odm1))
             = currentParameterEstimate odm1"
proof -
  have 1: "currentParameterEstimate odm1 = v"
    using assms by (rule resetParameterEstimate_Inr)
  obtain res odm2 where 2: "resetParameterEstimate env v r2 odm1 = (res, odm2)"
    by (cases "resetParameterEstimate env v r2 odm1")
  have "currentParameterEstimate odm2 = currentParameterEstimate odm1"
  proof (cases res)
    case (Inl e)
    then show ?thesis using 2 resetParameterEstimate_Inl by blast
  next
    case (Inr u')
    then show ?thesis using 1 2 resetParameterEstimate_Inr by metis
  qed
  then show ?thesis using 1 2 by simp
qed

theorem resetParameterEstimate_idempotent_witness:
  "resetParameterEstimate exampleCollaborators [Num 2] True exampleManagerObject
     = (Inr (), exampleManagerObject\<lparr> dynamicalModel := [Num 2],
                                       currentParameterEstimate := [Num 2] \<rparr>)
   \<and> currentParameterEstimate
         (exampleManagerObject\<lparr> dynamicalModel := [Num 2],
                                currentParameterEstimate := [Num 2] \<rparr>) = [Num 2]
   \<and> currentParameterEstimate
         (snd (resetParameterEstimate exampleCollaborators [Num 2] False
                 (exampleManagerObject\<lparr> dynamicalModel := [Num 2],
                                        currentParameterEstimate := [Num 2] \<rparr>)))
       = [Num 2]"
proof -
  have run: "resetParameterEstimate exampleCollaborators [Num 2] True exampleManagerObject
     = (Inr (), exampleManagerObject\<lparr> dynamicalModel := [Num 2],
                                       currentParameterEstimate := [Num 2] \<rparr>)"
    by (simp add: resetParameterEstimate_def exampleCollaborators_def exampleManagerObject_def)
  show ?thesis
    using resetParameterEstimate_idempotent [OF run, of False] run by simp
qed

section \<open>Properties of the estimation loop\<close>

text \<open>
  A run of the loop that returns a state either stopped after one pass or went on from
  the state that pass produced; properties of such runs are proved by induction on that.
\<close>

lemma sint_Suc:
  fixes n :: cpp_int
  assumes "sint n < 2 ^ 31 - 1"
  shows "sint (n + 1) = sint n + 1"
proof -
  have "- (2 ^ 31) \<le> sint n" using sint_ge[of n] by simp
  then have "signed_take_bit 31 (sint n + 1) = sint n + 1"
    using assms by (intro signed_take_bit_int_eq_self) simp_all
  then show ?thesis by (simp add: sint_word_ariths)
qed

lemma sint_max: "sint (m :: cpp_int) \<le> 2 ^ 31 - 1"
  using sint_lt[of m] by simp

lemma estimationLoop_Inr_cases:
  assumes "estimationLoop env cc pod P t odm st = (Inr stf, odmf)"
  obtains (stop)
      "estimationIteration env pod P t odm st = (Inr stf, odmf)"
      "isEstimationConverged cc (numberOfIterations stf) (rmsResidualHistory stf) = Inr True"
    | (continue) st' odm' where
      "estimationIteration env pod P t odm st = (Inr st', odm')"
      "isEstimationConverged cc (numberOfIterations st') (rmsResidualHistory st') = Inr False"
      "estimationLoop env cc pod P t odm' st' = (Inr stf, odmf)"
proof -
  obtain r odm' where it: "estimationIteration env pod P t odm st = (r, odm')"
    by (cases "estimationIteration env pod P t odm st")
  from assms obtain st' where r: "r = Inr st'"
    by (subst (asm) estimationLoop.simps) (auto simp: it split: sum.splits)
  from assms obtain c where c:
    "isEstimationConverged cc (numberOfIterations st') (rmsResidualHistory st') = Inr c"
    by (subst (asm) estimationLoop.simps) (auto simp: it r split: sum.splits)
  show thesis
  proof (cases c)
    case True
    with assms have "stf = st'" "odmf = odm'"
      by (subst (asm) estimationLoop.simps, simp add: it r c)+
    then show ?thesis using stop it r c True by simp
  next
    case False
    with assms have "estimationLoop env cc pod P t odm' st' = (Inr stf, odmf)"
      by (subst (asm) estimationLoop.simps) (simp add: it r c)
    then show ?thesis using continue it r c False by simp
  qed
qed

lemma estimationLoop_induct_Inr [consumes 1, case_names stop continue]:
  assumes "estimationLoop env cc pod P t odm st = (Inr stf, odmf)"
    and "\<And>odm st.
           estimationIteration env pod P t odm st = (Inr stf, odmf) \<Longrightarrow>
           isEstimationConverged cc (numberOfIterations stf) (rmsResidualHistory stf) = Inr True \<Longrightarrow>
           Q odm st"
    and "\<And>odm st odm' st'.
           estimationIteration env pod P t odm st = (Inr st', odm') \<Longrightarrow>
           isEstimationConverged cc (numberOfIterations st') (rmsResidualHistory st') = Inr False \<Longrightarrow>
           estimationLoop env cc pod P t odm' st' = (Inr stf, odmf) \<Longrightarrow>
           Q odm' st' \<Longrightarrow> Q odm st"
  shows "Q odm st"
  using assms
proof (induction env cc pod P t odm st rule: estimationLoop.induct)
  case (1 env cc pod P t odm st)
  from "1.prems"(1) show ?case
  proof (cases rule: estimationLoop_Inr_cases)
    case stop
    then show ?thesis by (rule "1.prems"(2))
  next
    case (continue st' odm')
    have "Q odm' st'"
    proof (rule "1.IH"[of "Inr st'" odm' st' False])
      show "(Inr st', odm') = estimationIteration env pod P t odm st"
        using continue(1) by simp
      show "isEstimationConverged cc (numberOfIterations st') (rmsResidualHistory st')
              = Inr False"
        by (rule continue(2))
      show "estimationLoop env cc pod P t odm' st' = (Inr stf, odmf)"
        by (rule continue(3))
    qed (simp_all only: refl, (rule "1.prems"(2-3); assumption)+)
    show ?thesis
      by (rule "1.prems"(3)[OF continue(1) continue(2) continue(3) \<open>Q odm' st'\<close>])
  qed
qed






lemma updateEstimate_step:
  assumes "updateEstimate env pod P st results = Inr st'"
  shows "rmsResidualHistory st'
           = rmsResidualHistory st @ [getVectorEntryRootMeanSquare env (fst results)]"
    and "numberOfIterations st' = numberOfIterations st + 1"
    and "double_less (getVectorEntryRootMeanSquare env (fst results)) (bestResidual st) \<Longrightarrow>
           bestResidual st' = getVectorEntryRootMeanSquare env (fst results)
           \<and> bestResiduals st' = fst results
           \<and> bestParameterEstimate st' = newParameterEstimate st'"
    and "\<not> double_less (getVectorEntryRootMeanSquare env (fst results)) (bestResidual st) \<Longrightarrow>
           bestSnapshot st' = bestSnapshot st"
  using assms
  by (auto simp: updateEstimate_def Let_def bestSnapshot_def
           split: prod.splits sum.splits if_splits)

lemma estimationIteration_step:
  assumes "estimationIteration env pod P t odm st = (Inr st', odm')"
  shows "\<exists>rms. rmsResidualHistory st' = rmsResidualHistory st @ [rms]
           \<and> numberOfIterations st' = numberOfIterations st + 1
           \<and> (if double_less rms (bestResidual st)
               then bestResidual st' = rms
                    \<and> bestParameterEstimate st' = newParameterEstimate st'
               else bestSnapshot st' = bestSnapshot st)"
proof -
  from assms obtain results where
    u: "updateEstimate env pod P st results = Inr st'"
    by (auto simp: estimationIteration_def split: prod.splits sum.splits)
  show ?thesis
    using updateEstimate_step[OF u] by (intro exI[of _ "getVectorEntryRootMeanSquare env (fst results)"]) simp
qed








lemma estimationLoop_count:
  assumes "estimationLoop env cc pod P t odm st = (Inr stf, odmf)"
    and "0 \<le> sint (numberOfIterations st)"
    and "sint (numberOfIterations st) = 0
         \<or> sint (numberOfIterations st) < sint (maximumNumberOfIterations cc)"
  shows "sint (numberOfIterations st) < sint (numberOfIterations stf)
    \<and> sint (numberOfIterations stf)
        \<le> max (sint (numberOfIterations st) + 1) (sint (maximumNumberOfIterations cc))
    \<and> int (length (rmsResidualHistory stf))
        = int (length (rmsResidualHistory st))
          + (sint (numberOfIterations stf) - sint (numberOfIterations st))"
  using assms
proof (induction rule: estimationLoop_induct_Inr)
  case (stop odm st)
  from estimationIteration_step[OF stop(1)] obtain rms where s:
    "rmsResidualHistory stf = rmsResidualHistory st @ [rms]"
    "numberOfIterations stf = numberOfIterations st + 1" by blast
  have "sint (numberOfIterations st) < 2 ^ 31 - 1"
    using stop(4) sint_max[of "maximumNumberOfIterations cc"] by auto
  then have "sint (numberOfIterations stf) = sint (numberOfIterations st) + 1"
    unfolding s(2) by (rule sint_Suc)
  then show ?case using s(1) by simp
next
  case (continue odm st odm' st')
  from estimationIteration_step[OF continue(1)] obtain rms where s:
    "rmsResidualHistory st' = rmsResidualHistory st @ [rms]"
    "numberOfIterations st' = numberOfIterations st + 1" by blast
  have "sint (numberOfIterations st) < 2 ^ 31 - 1"
    using continue(6) sint_max[of "maximumNumberOfIterations cc"] by auto
  then have n': "sint (numberOfIterations st') = sint (numberOfIterations st) + 1"
    unfolding s(2) by (rule sint_Suc)
  have "\<not> word_sle (maximumNumberOfIterations cc) (numberOfIterations st')"
    using continue(2) by (rule isEstimationConverged_False_iterations)
  then have lt: "sint (numberOfIterations st') < sint (maximumNumberOfIterations cc)"
    by (simp add: word_sle_eq)
  have "sint (numberOfIterations st') < sint (numberOfIterations stf)
    \<and> sint (numberOfIterations stf)
        \<le> max (sint (numberOfIterations st') + 1) (sint (maximumNumberOfIterations cc))
    \<and> int (length (rmsResidualHistory stf))
        = int (length (rmsResidualHistory st'))
          + (sint (numberOfIterations stf) - sint (numberOfIterations st'))"
    using n' lt continue(5) by (intro continue(4)) simp_all
  then show ?case using n' lt s(1) by simp
qed

text \<open>The runs of the two small estimation problems.\<close>

lemmas example_defs =
  exampleCollaborators_def examplePodInput_def exampleManagerObject_def exampleManager_def
  exampleLeastSquares_def exampleRootMeanSquare_def

lemmas iteration_defs =
  estimationIteration_def residualsAndCorrection_def updateEstimate_def
  resetParameterEstimate_def calculateObservationMatrixAndResiduals_def
  observationManagers_subscript_def normalizeObservationMatrix_def
  normalizeInverseAprioriCovariance_def leftColumns_def getConcatenatedWeightsVector_def
  vector_minus_def vector_plus_def cwiseQuotient_def cwise_def setSegment_def segment_def
  setBlock_def getColumn_def setColumn_def minCoeff_def maxCoeff_def
  MatrixXd_Zero_def VectorXd_Zero_def double_sub_def double_greater_def DBL_MAX_def
  initialLoopState_def

lemma example_iteration:
  "estimationIteration exampleCollaborators examplePodInput 1 1 exampleManagerObject
     (initialLoopState 1 1 [Num 0] [Num 0]) = (Inr exampleState1, exampleManagerObject)"
  by (simp add: iteration_defs example_defs exampleState1_def Let_def)

lemma example_converged_0:
  "isEstimationConverged (EstimationConvergenceChecker_init 0 (Num 0) (Num 0) 2)
     (numberOfIterations exampleState1) (rmsResidualHistory exampleState1) = Inr True"
  by (simp add: isEstimationConverged_def EstimationConvergenceChecker_init_def
        exampleState1_def distanceMinusSize_def max_element_def word_sle_eq)

lemma example_loop:
  "estimationLoop exampleCollaborators (EstimationConvergenceChecker_init 0 (Num 0) (Num 0) 2)
     examplePodInput 1 1 exampleManagerObject (initialLoopState 1 1 [Num 0] [Num 0])
   = (Inr exampleState1, exampleManagerObject)"
  by (subst estimationLoop.simps)
     (simp only: example_iteration example_converged_0 prod.case sum.case simp_thms if_False)









text \<open>
  C5. The loop is a total function: \<open>estimationLoop\<close> is defined by recursion on the
  distance of the counter to the ceiling of the checker, which every pass that goes on
  makes smaller. Every run that starts from the initial state and returns has completed
  at least one iteration, at most as many as the larger of 1 and the maximum number of
  iterations, and has recorded one root mean square for each of them.
\<close>

theorem estimationLoop_iterations:
  assumes "estimationLoop env cc podInput parameterVectorSize totalNumberOfObservations odm
             (initialLoopState parameterVectorSize totalNumberOfObservations new old)
           = (Inr st, odm')"
  shows "1 \<le> sint (numberOfIterations st)
    \<and> sint (numberOfIterations st) \<le> max 1 (sint (maximumNumberOfIterations cc))
    \<and> int (length (rmsResidualHistory st)) = sint (numberOfIterations st)"
proof -
  let ?st0 = "initialLoopState parameterVectorSize totalNumberOfObservations new old"
  have 0: "numberOfIterations ?st0 = 0" "rmsResidualHistory ?st0 = []"
    by (simp_all add: initialLoopState_def)
  have "sint (numberOfIterations ?st0) < sint (numberOfIterations st)
    \<and> sint (numberOfIterations st)
        \<le> max (sint (numberOfIterations ?st0) + 1) (sint (maximumNumberOfIterations cc))
    \<and> int (length (rmsResidualHistory st))
        = int (length (rmsResidualHistory ?st0))
          + (sint (numberOfIterations st) - sint (numberOfIterations ?st0))"
    by (rule estimationLoop_count[OF assms]) (simp_all add: 0)
  then show ?thesis by (simp add: 0)
qed

text \<open>
  The run of the small estimation problem with a ceiling of 0 iterations completes one
  iteration.
\<close>

theorem estimationLoop_iterations_witness:
  "estimationLoop exampleCollaborators (EstimationConvergenceChecker_init 0 (Num 0) (Num 0) 2)
     examplePodInput 1 1 exampleManagerObject (initialLoopState 1 1 [Num 0] [Num 0])
   = (Inr exampleState1, exampleManagerObject)
   \<and> 1 \<le> sint (numberOfIterations exampleState1)
   \<and> sint (numberOfIterations exampleState1)
       \<le> max 1 (sint (maximumNumberOfIterations
                        (EstimationConvergenceChecker_init 0 (Num 0) (Num 0) 2)))
   \<and> int (length (rmsResidualHistory exampleState1)) = sint (numberOfIterations exampleState1)"
  using estimationLoop_iterations[OF example_loop] example_loop by simp

text \<open>On that run the number of completed iterations exceeds the ceiling.\<close>

theorem estimationLoop_exceeds_zero_ceiling:
  "estimationLoop exampleCollaborators (EstimationConvergenceChecker_init 0 (Num 0) (Num 0) 2)
     examplePodInput 1 1 exampleManagerObject (initialLoopState 1 1 [Num 0] [Num 0])
   = (Inr exampleState1, exampleManagerObject)
   \<and> \<not> sint (numberOfIterations exampleState1)
         \<le> sint (maximumNumberOfIterations
                   (EstimationConvergenceChecker_init 0 (Num 0) (Num 0) 2))"
  using example_loop
  by (simp add: exampleState1_def EstimationConvergenceChecker_init_def)



end
